theory Spec2Isabelle
  imports Complex_Main
begin

section \<open>Numbers and strings of the source\<close>

text \<open>
  The program is JavaScript (\<^verbatim>\<open>src/autopilot/run.js\<close>). Its numbers are modelled as
  the reals and its arithmetic as exact, with one exception: the sums of a merged
  segment are rounded as the doubles of the source are (\<open>js_add\<close> below), since the
  conservation of distance and time turns on that rounding. The values \<^verbatim>\<open>NaN\<close> and
  \<^verbatim>\<open>Infinity\<close> arise in the source from a division by zero, and \<^verbatim>\<open>Infinity\<close> from a
  number beyond the largest double; where the source can divide by zero the quotient is
  written out as a datatype (see \<open>maxAttemptsFor\<close>), and numbers beyond the largest
  double are outside the model. Absent values (\<^verbatim>\<open>null\<close>, \<^verbatim>\<open>undefined\<close>) are \<open>None\<close>.
  Strings are lists of 8-bit characters.
\<close>

text \<open>\<^verbatim>\<open>Math.round\<close>: the nearest integer, a tie going to the larger one.\<close>

definition Math_round :: "real \<Rightarrow> int" where
  "Math_round x = \<lfloor>x + 1 / 2\<rfloor>"

text \<open>The decimal digits of an integer, as string interpolation prints an integral number.\<close>

definition digit_char :: "nat \<Rightarrow> char" where
  "digit_char d = ''0123456789'' ! d"

function show_nat :: "nat \<Rightarrow> string" where
  "show_nat n = (if n < 10 then [digit_char n] else show_nat (n div 10) @ [digit_char (n mod 10)])"
  by pat_completeness auto
termination
  by (relation "measure (\<lambda>n. n)") auto

declare show_nat.simps [simp del]

definition show_int :: "int \<Rightarrow> string" where
  "show_int i = (if i < 0 then CHR ''-'' # show_nat (nat (- i)) else show_nat (nat i))"

text \<open>
  \<^verbatim>\<open>Math.floor\<close> is \<open>floor\<close>. The remainder \<^verbatim>\<open>x % y\<close> of JavaScript takes the
  sign of \<open>x\<close>: the quotient is truncated towards zero.
\<close>

definition Math_trunc :: "real \<Rightarrow> int" where
  "Math_trunc x = (if x \<ge> 0 then \<lfloor>x\<rfloor> else \<lceil>x\<rceil>)"

definition js_rem :: "real \<Rightarrow> real \<Rightarrow> real" where
  "js_rem x y = x - y * of_int (Math_trunc (x / y))"

text \<open>\<^verbatim>\<open>s.padStart(2, '0')\<close>.\<close>

definition padStart2 :: "string \<Rightarrow> string" where
  "padStart2 s = replicate (2 - length s) (CHR ''0'') @ s"

text \<open>
  \<^verbatim>\<open>x.toFixed(1)\<close>: the sign, then the nearest number of tenths (a tie going up) with
  one digit after the point. (Above \<open>10\<^sup>2\<^sup>1\<close> the source prints an exponent; such values
  are outside the model.)
\<close>

definition toFixed1 :: "real \<Rightarrow> string" where
  "toFixed1 x =
     (let a = \<bar>x\<bar>;
          n = nat \<lfloor>a * 10 + 1 / 2\<rfloor>
      in (if x < 0 then ''-'' else '''') @ show_nat (n div 10) @ ''.'' @ show_nat (n mod 10))"

text \<open>
  White space as \<^verbatim>\<open>trim\<close> and the pattern \<^verbatim>\<open>\s\<close> see it, among 8-bit characters:
  TAB, LF, VT, FF, CR, space and the no-break space.
\<close>

definition isSpace :: "char \<Rightarrow> bool" where
  "isSpace c = (c \<in> set [CHR 0x09, CHR 0x0A, CHR 0x0B, CHR 0x0C, CHR 0x0D, CHR '' '', CHR 0xA0])"

definition trim :: "string \<Rightarrow> string" where
  "trim s = rev (dropWhile isSpace (rev (dropWhile isSpace s)))"

definition isDigit :: "char \<Rightarrow> bool" where
  "isDigit c = (c \<in> set ''0123456789'')"

text \<open>
  Lower case of the ASCII letters; the patterns and the substring \<^verbatim>\<open>'run'\<close> of the
  source hold ASCII letters only, and no other character folds onto one.
\<close>

definition toLowerChar :: "char \<Rightarrow> char" where
  "toLowerChar c =
     (case map_of (zip ''ABCDEFGHIJKLMNOPQRSTUVWXYZ'' ''abcdefghijklmnopqrstuvwxyz'') c of
        Some d \<Rightarrow> d
      | None \<Rightarrow> c)"

definition toLowerCase :: "string \<Rightarrow> string" where
  "toLowerCase s = map toLowerChar s"

text \<open>\<^verbatim>\<open>s.startsWith(t)\<close> and \<^verbatim>\<open>s.includes(t)\<close>.\<close>

definition startsWith :: "string \<Rightarrow> string \<Rightarrow> bool" where
  "startsWith s t = (take (length t) s = t)"

fun str_includes :: "string \<Rightarrow> string \<Rightarrow> bool" where
  "str_includes [] t = (t = [])"
| "str_includes (c # cs) t = (startsWith (c # cs) t \<or> str_includes cs t)"

text \<open>\<^verbatim>\<open>lines.join('\n')\<close>.\<close>

fun joinLines :: "string list \<Rightarrow> string" where
  "joinLines [] = []"
| "joinLines [l] = l"
| "joinLines (l # ls) = l @ [CHR 0x0A] @ joinLines ls"

subsection \<open>Sums of doubles\<close>

text \<open>
  A number of the source is an IEEE-754 double. Where the source adds up the laps of a
  group (\<open>mergedSegment\<close> below) the rounding of each addition decides whether distance
  and time are conserved, so that addition is modelled as the source performs it:
  \<open>js_add a b\<close> is the exact sum rounded to the nearest double, a tie going to the
  double whose last bit is even. \<open>fl\<close> is that rounding. A double has 53 significant
  bits: near \<open>x\<close> the doubles are the multiples of \<open>2\<close> to the power \<open>binade \<bar>x\<bar> - 52\<close>,
  where \<open>binade\<close> is the exponent of the power of two at or below its argument, found by
  halving or doubling and kept between \<open>-1022\<close> and \<open>1023\<close> (below \<open>2\<^sup>-\<^sup>1\<^sup>0\<^sup>2\<^sup>2\<close> the doubles
  are the multiples of \<open>2\<^sup>-\<^sup>1\<^sup>0\<^sup>7\<^sup>4\<close>). A sum of \<open>2\<^sup>1\<^sup>0\<^sup>2\<^sup>4\<close> or more is \<^verbatim>\<open>Infinity\<close> in
  the source, a value the reals do not have: sums that large are outside the model.
\<close>

definition pow2 :: "int \<Rightarrow> real" where
  "pow2 k = (if 0 \<le> k then 2 ^ nat k else 1 / 2 ^ nat (- k))"

definition roundEven :: "real \<Rightarrow> int" where
  "roundEven x =
     (let f = \<lfloor>x\<rfloor>; d = x - of_int f
      in if d < 1 / 2 then f else if 1 / 2 < d then f + 1 else if even f then f else f + 1)"

function binadeUp :: "real \<Rightarrow> int \<Rightarrow> int" where
  "binadeUp x e = (if x < 2 \<or> 1023 \<le> e then e else binadeUp (x / 2) (e + 1))"
  by pat_completeness auto
termination
  by (relation "measure (\<lambda>(x, e). nat (1023 - e))") auto

function binadeDown :: "real \<Rightarrow> int \<Rightarrow> int" where
  "binadeDown x e = (if 1 \<le> x \<or> e \<le> - 1022 then e else binadeDown (2 * x) (e - 1))"
  by pat_completeness auto
termination
  by (relation "measure (\<lambda>(x, e). nat (e + 1022))") auto

declare binadeUp.simps [simp del] binadeDown.simps [simp del]

definition binade :: "real \<Rightarrow> int" where
  "binade x = (if 1 \<le> x then binadeUp x 0 else binadeDown x 0)"

definition fl :: "real \<Rightarrow> real" where
  "fl x = (let q = pow2 (binade \<bar>x\<bar> - 52) in real_of_int (roundEven (x / q)) * q)"

definition js_add :: "real \<Rightarrow> real \<Rightarrow> real" where
  "js_add a b = fl (a + b)"

section \<open>Pace converter\<close>

text \<open>
  \<^verbatim>\<open>paceMinutesPerUnit(meters, seconds, unitSystem)\<close>: \<^verbatim>\<open>null\<close> when \<open>meters \<le> 0\<close>,
  else minutes per mile (unit \<^verbatim>\<open>'mi'\<close>) or per kilometre (any other unit).
\<close>

definition paceMinutesPerUnit :: "real \<Rightarrow> real \<Rightarrow> string \<Rightarrow> real option" where
  "paceMinutesPerUnit meters seconds unitSystem =
     (if meters \<le> 0 then None
      else let units = (if unitSystem = ''mi'' then meters / 1609.344 else meters / 1000)
           in Some ((seconds / 60) / units))"

section \<open>Lap classifier and merger\<close>

text \<open>
  A lap as the service returns it; \<open>merged\<close> holds when the object carries
  \<^verbatim>\<open>merged: true\<close>. Every other property of the object travels in the record's
  extension, which the spread \<^verbatim>\<open>...group[0]\<close> copies.
\<close>

record lap =
  lap_index :: int
  lap_name :: string
  distance :: real
  moving_time :: real
  merged :: bool

record paceRange =
  fastest :: real
  slowest :: real

text \<open>The test of the loop body: \<^verbatim>\<open>pace != null && pace >= fastest && pace <= slowest\<close>.\<close>

definition qualifies :: "paceRange \<Rightarrow> string \<Rightarrow> 'a lap_scheme \<Rightarrow> bool" where
  "qualifies paceRange unitSystem l =
     (case paceMinutesPerUnit (distance l) (moving_time l) unitSystem of
        None \<Rightarrow> False
      | Some pace \<Rightarrow> pace \<ge> fastest paceRange \<and> pace \<le> slowest paceRange)"

text \<open>
  The object pushed for a group of two laps or more. Its two sums are
  \<^verbatim>\<open>group.reduce((sum, lap) => sum + lap.distance, 0)\<close> and the same over
  \<^verbatim>\<open>moving_time\<close>: additions of doubles from the left, starting at 0.
\<close>

definition mergedSegment :: "'a lap_scheme list \<Rightarrow> 'a lap_scheme" where
  "mergedSegment grp =
     (let distanceMeters = foldl (\<lambda>sum l. js_add sum (distance l)) 0 grp;
          movingTimeSeconds = foldl (\<lambda>sum l. js_add sum (moving_time l)) 0 grp;
          start = lap_index (hd grp);
          end' = lap_index (last grp)
      in (hd grp)\<lparr> lap_index := lap_index (hd grp),
                     lap_name := ''Merged laps '' @ show_int start @ ''-'' @ show_int end',
                     distance := distanceMeters,
                     moving_time := movingTimeSeconds,
                     merged := True \<rparr>)"

text \<open>
  \<^verbatim>\<open>flushGroup\<close> works on the two local variables \<^verbatim>\<open>merged\<close> (here \<open>out\<close>) and \<^verbatim>\<open>group\<close>
  (here \<open>grp\<close>), the pair it takes and returns. \<open>hd\<close> and \<open>last\<close> in \<open>mergedSegment\<close> are read only on
  a group of two laps or more.
\<close>

fun flushGroup :: "'a lap_scheme list \<times> 'a lap_scheme list \<Rightarrow> 'a lap_scheme list \<times> 'a lap_scheme list" where
  "flushGroup (out, []) = (out, [])"
| "flushGroup (out, [g]) = (out @ [g], [])"
| "flushGroup (out, grp) = (out @ [mergedSegment grp], [])"

definition mergeStep ::
  "paceRange \<Rightarrow> string \<Rightarrow> 'a lap_scheme \<Rightarrow> 'a lap_scheme list \<times> 'a lap_scheme list
     \<Rightarrow> 'a lap_scheme list \<times> 'a lap_scheme list" where
  "mergeStep paceRange unitSystem l st =
     (if qualifies paceRange unitSystem l then (fst st, snd st @ [l])
      else (fst (flushGroup st) @ [l], snd (flushGroup st)))"

definition mergeLapsByPace :: "'a lap_scheme list \<Rightarrow> paceRange \<Rightarrow> string \<Rightarrow> 'a lap_scheme list" where
  "mergeLapsByPace laps paceRange unitSystem =
     fst (flushGroup (fold (mergeStep paceRange unitSystem) laps ([], [])))"

subsection \<open>The groups the merger forms\<close>

text \<open>
  The loop of \<open>mergeLapsByPace\<close> once more, keeping each group of laps as it is where
  the source pushes one segment for it: a lap that does not qualify is a group of its
  own, and a flushed pending group is a group. \<open>segmentOf\<close> is what the source pushes
  for a group.
\<close>

fun flushLaps :: "'a list list \<times> 'a list \<Rightarrow> 'a list list \<times> 'a list" where
  "flushLaps (out, []) = (out, [])"
| "flushLaps (out, grp) = (out @ [grp], [])"

definition groupStep ::
  "paceRange \<Rightarrow> string \<Rightarrow> 'a lap_scheme \<Rightarrow> 'a lap_scheme list list \<times> 'a lap_scheme list
     \<Rightarrow> 'a lap_scheme list list \<times> 'a lap_scheme list" where
  "groupStep paceRange unitSystem l st =
     (if qualifies paceRange unitSystem l then (fst st, snd st @ [l])
      else (fst (flushLaps st) @ [[l]], snd (flushLaps st)))"

definition lapGroups :: "'a lap_scheme list \<Rightarrow> paceRange \<Rightarrow> string \<Rightarrow> 'a lap_scheme list list" where
  "lapGroups laps paceRange unitSystem =
     fst (flushLaps (fold (groupStep paceRange unitSystem) laps ([], [])))"

fun segmentOf :: "'a lap_scheme list \<Rightarrow> 'a lap_scheme" where
  "segmentOf [g] = g"
| "segmentOf grp = mergedSegment grp"

subsection \<open>Isolated qualifying segments\<close>

text \<open>No two neighbours of the list both satisfy \<open>q\<close>.\<close>

fun no_adjacent :: "('a \<Rightarrow> bool) \<Rightarrow> 'a list \<Rightarrow> bool" where
  "no_adjacent q [] = True"
| "no_adjacent q [x] = True"
| "no_adjacent q (x # y # zs) = (\<not> (q x \<and> q y) \<and> no_adjacent q (y # zs))"

section \<open>Workout description synthesizer\<close>

text \<open>\<^verbatim>\<open>formatPace\<close>; the guard \<^verbatim>\<open>!Number.isFinite(pace)\<close> never fires on a real.\<close>

definition formatPace :: "real \<Rightarrow> real \<Rightarrow> string \<Rightarrow> string" where
  "formatPace meters seconds unitSystem =
     (case paceMinutesPerUnit meters seconds unitSystem of
        None \<Rightarrow> ''-''
      | Some pace \<Rightarrow>
          let totalSeconds = Math_round (pace * 60);
              mins = \<lfloor>real_of_int totalSeconds / 60\<rfloor>;
              secs = Math_trunc (js_rem (real_of_int totalSeconds) 60)
          in show_int mins @ '':'' @ padStart2 (show_int secs) @ '' ''
               @ (if unitSystem = ''mi'' then ''min/mi'' else ''min/km''))"

definition formatDuration :: "real \<Rightarrow> string" where
  "formatDuration seconds =
     (let mins = \<lfloor>seconds / 60\<rfloor>;
          secs = \<lfloor>js_rem seconds 60\<rfloor>
      in show_int mins @ '':'' @ padStart2 (show_int secs))"

text \<open>\<^verbatim>\<open>snapToMinuteIfClose(seconds, toleranceSeconds = 2)\<close>.\<close>

definition snapToMinuteIfClose :: "real \<Rightarrow> real \<Rightarrow> real" where
  "snapToMinuteIfClose seconds toleranceSeconds =
     (let nearestMinute = real_of_int (Math_round (seconds / 60)) * 60
      in if \<bar>seconds - nearestMinute\<bar> \<le> toleranceSeconds then nearestMinute else seconds)"

text \<open>
  The local function \<^verbatim>\<open>median\<close>. On the empty list the source reads
  \<^verbatim>\<open>sorted[-1]\<close> and \<^verbatim>\<open>sorted[0]\<close>, both undefined, and returns \<^verbatim>\<open>NaN\<close>: here \<open>None\<close>.
\<close>

definition median :: "real list \<Rightarrow> real option" where
  "median values =
     (let sorted = sort values;
          mid = length sorted div 2
      in if length sorted mod 2 = 1 then Some (sorted ! mid)
         else if sorted = [] then None
         else Some (real_of_int (Math_round ((sorted ! (mid - 1) + sorted ! mid) / 2))))"

text \<open>\<^verbatim>\<open>findIndex\<close>, and the backwards loop that finds \<^verbatim>\<open>lastFastIdx\<close>; both give \<open>-1\<close> when no element passes.\<close>

definition findIndex :: "('a \<Rightarrow> bool) \<Rightarrow> 'a list \<Rightarrow> int" where
  "findIndex p xs = (if list_ex p xs then int (length (takeWhile (\<lambda>x. \<not> p x) xs)) else - 1)"

definition findLastIndex :: "('a \<Rightarrow> bool) \<Rightarrow> 'a list \<Rightarrow> int" where
  "findLastIndex p xs =
     (if list_ex p xs then int (length xs) - 1 - int (length (takeWhile (\<lambda>x. \<not> p x) (rev xs)))
      else - 1)"

record 'a rep =
  fast :: "'a lap_scheme"
  restSeconds :: real

text \<open>The body of the loop over \<open>firstFastIdx .. lastFastIdx\<close>, on the list \<^verbatim>\<open>reps\<close>.\<close>

definition repStep :: "paceRange \<Rightarrow> string \<Rightarrow> 'a lap_scheme \<Rightarrow> 'a rep list \<Rightarrow> 'a rep list" where
  "repStep paceRange unitSystem seg reps =
     (if qualifies paceRange unitSystem seg then reps @ [\<lparr>fast = seg, restSeconds = 0\<rparr>]
      else if reps \<noteq> [] then
        butlast reps @ [(last reps)\<lparr>restSeconds := restSeconds (last reps) + moving_time seg\<rparr>]
      else reps)"

text \<open>One line of the body, for the rep at index \<open>idx\<close> (from 0) of \<open>n\<close> reps.\<close>

definition repLine :: "string \<Rightarrow> real \<Rightarrow> nat \<Rightarrow> nat \<Rightarrow> 'a rep \<Rightarrow> string" where
  "repLine unitSystem cooldownSeconds n idx r =
     (let repSeconds = snapToMinuteIfClose (moving_time (fast r)) 2;
          repPace = formatPace (distance (fast r)) repSeconds unitSystem;
          base = show_nat (idx + 1) @ '') '' @ formatDuration repSeconds @ '' @ '' @ repPace
      in if restSeconds r > 0 \<and> idx < n - 1 then
           base @ '' + rest '' @ formatDuration (snapToMinuteIfClose (restSeconds r) 2)
         else if idx = n - 1 \<and> cooldownSeconds > 0 then base @ '' + CD''
         else base)"

record workout =
  workout_name :: string
  workout_description :: string

text \<open>
  \<^verbatim>\<open>generateWorkoutDescription\<close>. \<open>None\<close> is the source's \<^verbatim>\<open>null\<close>. The last
  \<open>None\<close> stands for a median that is \<^verbatim>\<open>NaN\<close>, which needs an empty \<^verbatim>\<open>reps\<close> and is
  behind the return for that.
\<close>

definition generateWorkoutDescription ::
  "'a lap_scheme list \<Rightarrow> paceRange \<Rightarrow> string \<Rightarrow> workout option" where
  "generateWorkoutDescription laps paceRange unitSystem =
     (if laps = [] then None
      else
        let segments = mergeLapsByPace laps paceRange unitSystem;
            isWork = qualifies paceRange unitSystem;
            firstFastIdx = findIndex isWork segments;
            lastFastIdx = findLastIndex isWork segments
        in if firstFastIdx < 0 then None
           else if lastFastIdx < 0 then None
           else
             let reps = fold (repStep paceRange unitSystem)
                          (take (nat (lastFastIdx - firstFastIdx + 1)) (drop (nat firstFastIdx) segments)) []
             in if reps = [] then None
                else
                  let cooldownSeconds =
                        foldl (\<lambda>sum seg. sum + moving_time seg) 0 (drop (nat (lastFastIdx + 1)) segments);
                      repTimesRounded = map (\<lambda>r. snapToMinuteIfClose (moving_time (fast r)) 2) reps;
                      totalFastMeters = foldl (\<lambda>sum r. sum + distance (fast r)) 0 reps;
                      totalFastSecondsRounded = foldl (\<lambda>sum s. sum + s) 0 repTimesRounded;
                      fastAvgPace = formatPace totalFastMeters totalFastSecondsRounded unitSystem
                  in case median repTimesRounded of
                       None \<Rightarrow> None
                     | Some typicalRepSeconds \<Rightarrow>
                         let header = formatDuration typicalRepSeconds @ '' x '' @ show_nat (length reps)
                                        @ '' (avg '' @ fastAvgPace @ '')'';
                             lines = map (\<lambda>(idx, r). repLine unitSystem cooldownSeconds (length reps) idx r)
                                       (enumerate 0 reps)
                         in Some \<lparr>workout_name = header, workout_description = joinLines lines\<rparr>)"

text \<open>\<^verbatim>\<open>formatAvgHrDescription(avgHr, maxHr)\<close>; \<^verbatim>\<open>!maxHr\<close> holds for \<^verbatim>\<open>null\<close> and for 0.\<close>

definition formatAvgHrDescription :: "real \<Rightarrow> real option \<Rightarrow> string" where
  "formatAvgHrDescription avgHr maxHr =
     (let rounded = Math_round avgHr
      in case maxHr of
           None \<Rightarrow> ''Avg HR: '' @ show_int rounded @ '' bpm''
         | Some m \<Rightarrow>
             if m = 0 then ''Avg HR: '' @ show_int rounded @ '' bpm''
             else
               let pct = Math_round ((real_of_int rounded / m) * 100)
               in ''Avg HR: '' @ show_int rounded @ '' bpm ('' @ show_int pct @ ''% max)'')"

subsection \<open>The middle values of a list\<close>

text \<open>
  \<open>v\<close> is the value at rank \<open>k\<close> (from 0) of \<open>xs\<close>: it occurs in \<open>xs\<close>, at most
  \<open>k\<close> elements lie below it, and more than \<open>k\<close> elements are at most \<open>v\<close>. This
  is the reading of "the \<open>k\<close>-th of the sorted values" that names no sorting function.
\<close>

definition is_kth :: "real list \<Rightarrow> nat \<Rightarrow> real \<Rightarrow> bool" where
  "is_kth xs k v =
     (v \<in> set xs \<and> length (filter (\<lambda>x. x < v) xs) \<le> k \<and> k < length (filter (\<lambda>x. x \<le> v) xs))"

text \<open>The reps \<open>generateWorkoutDescription\<close> builds, for stating what its header shows.\<close>

definition workoutReps :: "'a lap_scheme list \<Rightarrow> paceRange \<Rightarrow> string \<Rightarrow> 'a rep list" where
  "workoutReps laps paceRange unitSystem =
     (let segments = mergeLapsByPace laps paceRange unitSystem;
          firstFastIdx = findIndex (qualifies paceRange unitSystem) segments;
          lastFastIdx = findLastIndex (qualifies paceRange unitSystem) segments
      in fold (repStep paceRange unitSystem)
           (take (nat (lastFastIdx - firstFastIdx + 1)) (drop (nat firstFastIdx) segments)) [])"

text \<open>The list \<^verbatim>\<open>repTimesRounded\<close> of \<open>generateWorkoutDescription\<close>: the snapped durations of its reps.\<close>

definition snappedRepDurations :: "'a lap_scheme list \<Rightarrow> paceRange \<Rightarrow> string \<Rightarrow> real list" where
  "snappedRepDurations laps paceRange unitSystem =
     map (\<lambda>r. snapToMinuteIfClose (moving_time (fast r)) 2) (workoutReps laps paceRange unitSystem)"

section \<open>Settings, time of day and names\<close>

text \<open>
  What the program takes from its platform: \<^verbatim>\<open>Number(s)\<close> on a string, the luxon
  \<^verbatim>\<open>DateTime\<close> (an abstract type \<open>'dt\<close> with the members the program reads),
  \<^verbatim>\<open>new Date(s).getTime()\<close> and the sealed-box encryption. They are parameters of the
  model. \<open>toNumber\<close> is \<open>None\<close> for a result that is not finite (\<^verbatim>\<open>NaN\<close>, an
  infinity): the program tests every such result with \<^verbatim>\<open>Number.isFinite\<close> before use.
\<close>

record 'dt platform =
  toNumber :: "string \<Rightarrow> real option"
  dt_hour :: "'dt \<Rightarrow> int"
  dt_minute :: "'dt \<Rightarrow> int"
  dt_weekday :: "'dt \<Rightarrow> int"
  dt_startOfDay :: "'dt \<Rightarrow> 'dt"
  dt_minusDays :: "'dt \<Rightarrow> int \<Rightarrow> 'dt"
  dt_toSeconds :: "'dt \<Rightarrow> real"
  dateGetTime :: "string \<Rightarrow> real"
  sealSecret :: "string \<Rightarrow> string \<Rightarrow> string"

text \<open>
  The settings file, each entry with the type the program reads it at. An entry the
  program defaults with \<^verbatim>\<open>??\<close> is an option.
\<close>

record settings =
  cfg_activeHours_start :: string
  cfg_activeHours_end :: string
  cfg_paceRange_fastest :: string
  cfg_paceRange_slowest :: string
  cfg_defaultRunNames :: "string list option"
  cfg_unitSystem :: string
  cfg_maxHr :: "real option"
  cfg_weekStart :: string
  cfg_lapRetryIntervalSeconds :: "real option"
  cfg_lapRetryMaxMinutes :: "real option"
  cfg_maxReadsPerRun :: "real option"
  cfg_weekTotals :: bool

text \<open>\<^verbatim>\<open>s.split(c)\<close>: the pieces between the separators, at least one piece.\<close>

fun splitFrom :: "char \<Rightarrow> string \<Rightarrow> string \<Rightarrow> string list" where
  "splitFrom c cur [] = [cur]"
| "splitFrom c cur (x # xs) = (if x = c then cur # splitFrom c [] xs else splitFrom c (cur @ [x]) xs)"

definition split :: "string \<Rightarrow> char \<Rightarrow> string list" where
  "split s c = splitFrom c [] s"

text \<open>
  \<^verbatim>\<open>parseTimeHM\<close>. The destructuring \<^verbatim>\<open>[h, m]\<close> reads the first two pieces; a missing
  second piece is \<^verbatim>\<open>undefined\<close>, which is not finite.
\<close>

definition parseTimeHM :: "'dt platform \<Rightarrow> string \<Rightarrow> (real \<times> real) option" where
  "parseTimeHM P text =
     (case map (toNumber P) (split text (CHR '':'')) of
        Some h # Some m # _ \<Rightarrow> Some (h, m)
      | _ \<Rightarrow> None)"

definition isWithinActiveHours :: "'dt platform \<Rightarrow> settings \<Rightarrow> 'dt \<Rightarrow> bool" where
  "isWithinActiveHours P settings now =
     (case (parseTimeHM P (cfg_activeHours_start settings), parseTimeHM P (cfg_activeHours_end settings)) of
        (Some (sh, sm), Some (eh, em)) \<Rightarrow>
          let startMinutes = sh * 60 + sm;
              endMinutes = eh * 60 + em;
              nowMinutes = real_of_int (dt_hour P now * 60 + dt_minute P now)
          in nowMinutes \<ge> startMinutes \<and> nowMinutes \<le> endMinutes
      | _ \<Rightarrow> True)"

definition startOfWeek :: "'dt platform \<Rightarrow> 'dt \<Rightarrow> string \<Rightarrow> 'dt" where
  "startOfWeek P dt weekStart =
     (let weekday = dt_weekday P dt;
          diff = (if weekStart = ''sunday'' then weekday mod 7 else weekday - 1)
      in dt_minusDays P (dt_startOfDay P dt) diff)"

text \<open>\<^verbatim>\<open>parsePace\<close>: \<^verbatim>\<open>m:s\<close> or a plain positive number of minutes.\<close>

definition parsePace :: "'dt platform \<Rightarrow> string \<Rightarrow> real option" where
  "parsePace P v =
     (let trimmed = trim v
      in if trimmed = [] then None
         else if CHR '':'' \<in> set trimmed then
           (case map (toNumber P) (split trimmed (CHR '':'')) of
              Some m # Some s # _ \<Rightarrow> if s < 0 \<or> s \<ge> 60 \<or> m < 0 then None else Some (m + s / 60)
            | _ \<Rightarrow> None)
         else
           (case toNumber P trimmed of
              None \<Rightarrow> None
            | Some num \<Rightarrow> if num \<le> 0 then None else Some num))"

definition paceRangeFromSettings :: "'dt platform \<Rightarrow> settings \<Rightarrow> paceRange option" where
  "paceRangeFromSettings P settings =
     (case (parsePace P (cfg_paceRange_fastest settings), parsePace P (cfg_paceRange_slowest settings)) of
        (Some f, Some s) \<Rightarrow> Some \<lparr>fastest = min f s, slowest = max f s\<rparr>
      | _ \<Rightarrow> None)"

text \<open>\<^verbatim>\<open>defaults.includes(name)\<close>; a name that is absent is in no list of strings.\<close>

definition isDefaultName :: "string option \<Rightarrow> string list \<Rightarrow> bool" where
  "isDefaultName name defaults = (case name of None \<Rightarrow> False | Some n \<Rightarrow> n \<in> set defaults)"

text \<open>
  The pattern \<^verbatim>\<open>/^\d+:\d{2}\s+x\s+\d+/i\<close>, read from the left. Each repetition is followed
  by a character outside its class, so the longest run is the only way to match.
\<close>

definition matchesIntervalHeader :: "string \<Rightarrow> bool" where
  "matchesIntervalHeader name =
     (takeWhile isDigit name \<noteq> [] \<and>
      (case dropWhile isDigit name of
         c # a # b # r1 \<Rightarrow>
           c = CHR '':'' \<and> isDigit a \<and> isDigit b \<and> takeWhile isSpace r1 \<noteq> [] \<and>
           (case dropWhile isSpace r1 of
              x # r2 \<Rightarrow>
                toLowerChar x = CHR ''x'' \<and> takeWhile isSpace r2 \<noteq> [] \<and>
                (case dropWhile isSpace r2 of d # _ \<Rightarrow> isDigit d | [] \<Rightarrow> False)
            | [] \<Rightarrow> False)
       | _ \<Rightarrow> False))"

definition isAlreadyRenamed :: "string option \<Rightarrow> bool" where
  "isAlreadyRenamed name =
     (case name of
        None \<Rightarrow> False
      | Some n \<Rightarrow>
          if n = [] then False
          else if str_includes (toLowerCase n) ''easy run'' then True
          else if str_includes (toLowerCase n) ''week total:'' then True
          else if matchesIntervalHeader n then True
          else False)"

definition looksLikeRun :: "string option \<Rightarrow> bool" where
  "looksLikeRun type =
     (case type of
        None \<Rightarrow> False
      | Some t \<Rightarrow> if t = [] then False else str_includes (toLowerCase t) ''run'')"

subsection \<open>Pace bounds that the spec calls invalid\<close>

text \<open>
  The spec asks of a pace range that both bounds be strictly positive. These
  definitions follow that sentence, not \<^verbatim>\<open>parsePace\<close>, and are compared with it below.
  \<open>specPaceValue\<close> is the number of minutes a configured text stands for: the minutes
  plus the seconds over 60 of a text \<^verbatim>\<open>m:s\<close> with \<open>0 \<le> m\<close> and \<open>0 \<le> s < 60\<close>, the number
  itself of a text without a colon, and nothing for the empty text and for any other
  text. \<open>specInvalidPace\<close> holds of a bound that stands for no number or for one that
  is not strictly positive. \<open>zeroColonPace\<close> singles out the texts with a colon that
  stand for zero, such as \<^verbatim>\<open>0:00\<close>.
\<close>

definition specPaceValue :: "'dt platform \<Rightarrow> string \<Rightarrow> real option" where
  "specPaceValue P v =
     (let t = trim v
      in if t = [] then None
         else if CHR '':'' \<in> set t then
           (case map (toNumber P) (split t (CHR '':'')) of
              Some m # Some s # _ \<Rightarrow> if 0 \<le> m \<and> 0 \<le> s \<and> s < 60 then Some (m + s / 60) else None
            | _ \<Rightarrow> None)
         else toNumber P t)"

definition specInvalidPace :: "'dt platform \<Rightarrow> string \<Rightarrow> bool" where
  "specInvalidPace P v = (case specPaceValue P v of None \<Rightarrow> True | Some x \<Rightarrow> x \<le> 0)"

definition zeroColonPace :: "'dt platform \<Rightarrow> string \<Rightarrow> bool" where
  "zeroColonPace P v = (CHR '':'' \<in> set (trim v) \<and> specPaceValue P v = Some 0)"

section \<open>The activity service and the state of a run\<close>

text \<open>An activity of the service, with the fields the program reads.\<close>

record activity =
  act_id :: int
  act_name :: "string option"
  act_type :: "string option"
  act_sport_type :: "string option"
  act_workout_type :: "int option"
  act_distance :: "real option"
  act_average_heartrate :: "real option"
  act_start_date :: "string option"

text \<open>The payload of a rename: \<^verbatim>\<open>{ name, description }\<close>, either of which may be absent.\<close>

record update =
  upd_name :: "string option"
  upd_description :: "string option"

text \<open>
  A response: not \<^verbatim>\<open>ok\<close>, with its status and text, or \<^verbatim>\<open>ok\<close> with the parsed body.
  The service is taken to answer each endpoint with a body of that endpoint's shape.
\<close>

datatype 'a response = NotOk int string | Ok 'a

text \<open>
  Every exchange with the network, and every sleep, is an event of the run's trace, in
  order. The bearer token sent along is left out.
\<close>

datatype event =
    EvToken string string string "(string \<times> string option) response"
  | EvGhGetKey "string list" "(string \<times> string) response"
  | EvGhPutSecret "string list" string string string "unit response"
  | EvList int int "activity list response"
  | EvDetail int "activity response"
  | EvLaps int "lap list response"
  | EvPut int update "unit response"
  | EvListPage int int int int "activity list response"
  | EvSleep real

text \<open>
  The outside world: a state \<open>'w\<close> and, for each endpoint, the answer to a request
  and the world after it. Sleeping lets the world move on.
\<close>

record 'w service =
  svc_token :: "string \<Rightarrow> string \<Rightarrow> string \<Rightarrow> 'w \<Rightarrow> (string \<times> string option) response \<times> 'w"
  svc_ghGetKey :: "string list \<Rightarrow> 'w \<Rightarrow> (string \<times> string) response \<times> 'w"
  svc_ghPutSecret :: "string list \<Rightarrow> string \<Rightarrow> string \<Rightarrow> string \<Rightarrow> 'w \<Rightarrow> unit response \<times> 'w"
  svc_list :: "int \<Rightarrow> int \<Rightarrow> 'w \<Rightarrow> activity list response \<times> 'w"
  svc_detail :: "int \<Rightarrow> 'w \<Rightarrow> activity response \<times> 'w"
  svc_laps :: "int \<Rightarrow> 'w \<Rightarrow> lap list response \<times> 'w"
  svc_put :: "int \<Rightarrow> update \<Rightarrow> 'w \<Rightarrow> unit response \<times> 'w"
  svc_listPage :: "int \<Rightarrow> int \<Rightarrow> int \<Rightarrow> int \<Rightarrow> 'w \<Rightarrow> activity list response \<times> 'w"
  svc_sleep :: "real \<Rightarrow> 'w \<Rightarrow> 'w"

text \<open>
  The environment variables, and the mutable state of a run: the world, the trace, the
  counter \<^verbatim>\<open>readsUsed\<close> of \<^verbatim>\<open>main\<close> and the module variable \<^verbatim>\<open>STRAVA_REFRESH_TOKEN\<close>.
\<close>

record env =
  STRAVA_CLIENT_ID :: "string option"
  STRAVA_CLIENT_SECRET :: "string option"
  STRAVA_REFRESH_TOKEN :: "string option"
  GH_PAT :: "string option"
  GITHUB_REPOSITORY :: "string option"

record 'w runState =
  world :: 'w
  trace :: "event list"
  readsUsed :: int
  refreshToken :: "string option"

datatype error =
    MissingCredentials
  | InvalidPaceRange
  | TokenRefreshFailed int string
  | PublicKeyFailed int string
  | SecretUpdateFailed int string
  | ListActivitiesFailed int string

text \<open>A variable is falsy when it is unset or empty.\<close>

definition truthy :: "string option \<Rightarrow> bool" where
  "truthy v = (case v of None \<Rightarrow> False | Some s \<Rightarrow> s \<noteq> [])"

text \<open>One exchange: ask the world, record the event.\<close>

definition exchange ::
  "('w \<Rightarrow> 'r \<times> 'w) \<Rightarrow> ('r \<Rightarrow> event) \<Rightarrow> 'w runState \<Rightarrow> 'r \<times> 'w runState" where
  "exchange ask ev st =
     (let (r, w) = ask (world st)
      in (r, st\<lparr>world := w, trace := trace st @ [ev r]\<rparr>))"

definition sleep :: "'w service \<Rightarrow> real \<Rightarrow> 'w runState \<Rightarrow> 'w runState" where
  "sleep svc ms st = st\<lparr>world := svc_sleep svc ms (world st), trace := trace st @ [EvSleep ms]\<rparr>"

text \<open>
  A variable that is unset goes into a request as the text \<^verbatim>\<open>undefined\<close>.
\<close>

definition envString :: "string option \<Rightarrow> string" where
  "envString v = (case v of None \<Rightarrow> ''undefined'' | Some s \<Rightarrow> s)"

text \<open>\<^verbatim>\<open>updateSecretIfPossible(name, value)\<close>.\<close>

definition updateSecretIfPossible ::
  "'dt platform \<Rightarrow> 'w service \<Rightarrow> env \<Rightarrow> string \<Rightarrow> string \<Rightarrow> 'w runState \<Rightarrow> (error + unit) \<times> 'w runState" where
  "updateSecretIfPossible P svc e name v st =
     (case GITHUB_REPOSITORY e of
        None \<Rightarrow> (Inr (), st)
      | Some repository \<Rightarrow>
          if \<not> truthy (GH_PAT e) \<or> repository = [] then (Inr (), st)
          else
            let ownerRepo = take 2 (split repository (CHR ''/''));
                (keyResp, st1) = exchange (svc_ghGetKey svc ownerRepo) (EvGhGetKey ownerRepo) st
            in case keyResp of
                 NotOk status txt \<Rightarrow> (Inl (PublicKeyFailed status txt), st1)
               | Ok (key, key_id) \<Rightarrow>
                   let encrypted = sealSecret P v key;
                       (putResp, st2) = exchange (svc_ghPutSecret svc ownerRepo name encrypted key_id)
                                          (EvGhPutSecret ownerRepo name encrypted key_id) st1
                   in case putResp of
                        NotOk status txt \<Rightarrow> (Inl (SecretUpdateFailed status txt), st2)
                      | Ok _ \<Rightarrow> (Inr (), st2))"

text \<open>\<^verbatim>\<open>refreshAccessToken()\<close>.\<close>

definition refreshAccessToken ::
  "'dt platform \<Rightarrow> 'w service \<Rightarrow> env \<Rightarrow> 'w runState \<Rightarrow> (error + string) \<times> 'w runState" where
  "refreshAccessToken P svc e st =
     (let cid = envString (STRAVA_CLIENT_ID e);
          secret = envString (STRAVA_CLIENT_SECRET e);
          (resp, st1) = exchange (svc_token svc cid secret (envString (refreshToken st)))
                          (EvToken cid secret (envString (refreshToken st))) st
      in case resp of
           NotOk status txt \<Rightarrow> (Inl (TokenRefreshFailed status txt), st1)
         | Ok (accessToken, None) \<Rightarrow> (Inr accessToken, st1)
         | Ok (accessToken, Some newRefresh) \<Rightarrow>
             if newRefresh \<noteq> [] \<and> Some newRefresh \<noteq> refreshToken st then
               (case updateSecretIfPossible P svc e ''STRAVA_REFRESH_TOKEN'' newRefresh st1 of
                  (Inl err, st2) \<Rightarrow> (Inl err, st2)
                | (Inr _, st2) \<Rightarrow> (Inr accessToken, st2\<lparr>refreshToken := Some newRefresh\<rparr>))
             else (Inr accessToken, st1))"

text \<open>\<^verbatim>\<open>stravaGet\<close> on the three kinds of address the program reads, and \<^verbatim>\<open>stravaPutActivity\<close>.\<close>

definition stravaGetLaps :: "'w service \<Rightarrow> int \<Rightarrow> 'w runState \<Rightarrow> lap list response \<times> 'w runState" where
  "stravaGetLaps svc activityId st = exchange (svc_laps svc activityId) (EvLaps activityId) st"

definition stravaGetDetail :: "'w service \<Rightarrow> int \<Rightarrow> 'w runState \<Rightarrow> activity response \<times> 'w runState" where
  "stravaGetDetail svc activityId st = exchange (svc_detail svc activityId) (EvDetail activityId) st"

definition stravaGetList :: "'w service \<Rightarrow> int \<Rightarrow> int \<Rightarrow> 'w runState \<Rightarrow> activity list response \<times> 'w runState" where
  "stravaGetList svc perPage afterEpoch st = exchange (svc_list svc perPage afterEpoch) (EvList perPage afterEpoch) st"

definition stravaGetListPage ::
  "'w service \<Rightarrow> int \<Rightarrow> int \<Rightarrow> int \<Rightarrow> int \<Rightarrow> 'w runState \<Rightarrow> activity list response \<times> 'w runState" where
  "stravaGetListPage svc perPage page afterEpoch beforeEpoch st =
     exchange (svc_listPage svc perPage page afterEpoch beforeEpoch) (EvListPage perPage page afterEpoch beforeEpoch) st"

definition stravaPutActivity :: "'w service \<Rightarrow> int \<Rightarrow> update \<Rightarrow> 'w runState \<Rightarrow> unit response \<times> 'w runState" where
  "stravaPutActivity svc activityId payload st = exchange (svc_put svc activityId payload) (EvPut activityId payload) st"

section \<open>Building the update\<close>

text \<open>
  \<^verbatim>\<open>buildUpdate(activity, laps, paceRange, settings)\<close>. \<^verbatim>\<open>settings.maxHr\<close> counts when it
  is set and not zero.
\<close>

definition buildUpdate :: "activity \<Rightarrow> lap list \<Rightarrow> paceRange \<Rightarrow> settings \<Rightarrow> update" where
  "buildUpdate act laps paceRange settings =
     (let unitSystem = (if cfg_unitSystem settings = ''km'' then ''km'' else ''mi'');
          maxHr = (case cfg_maxHr settings of
                     None \<Rightarrow> None
                   | Some m \<Rightarrow> if m \<noteq> 0 then Some m else None)
      in case generateWorkoutDescription laps paceRange unitSystem of
           Some w \<Rightarrow> \<lparr>upd_name = Some (workout_name w), upd_description = Some (workout_description w)\<rparr>
         | None \<Rightarrow>
             let description = (case act_average_heartrate act of
                                  Some avgHr \<Rightarrow> formatAvgHrDescription avgHr maxHr
                                | None \<Rightarrow> '''')
             in \<lparr>upd_name = Some ''Easy Run'', upd_description = Some description\<rparr>)"

section \<open>Bounded lap poller\<close>

text \<open>
  The bound \<^verbatim>\<open>Math.max(1, Math.floor((maxMinutes * 60 * 1000) / intervalMs))\<close>. The
  division is by zero when the interval is zero: the quotient is then \<^verbatim>\<open>Infinity\<close>,
  \<^verbatim>\<open>-Infinity\<close> or, for \<^verbatim>\<open>0 / 0\<close>, \<^verbatim>\<open>NaN\<close>. \<^verbatim>\<open>Math.floor\<close> keeps all three,
  \<^verbatim>\<open>Math.max(1, -Infinity)\<close> is 1 and \<^verbatim>\<open>Math.max(1, NaN)\<close> is \<^verbatim>\<open>NaN\<close>. (The reals have
  one zero; an interval of \<^verbatim>\<open>-0\<close>, which flips the sign of the infinity, is not told apart.)
\<close>

datatype attempts = Finite int | Infinity | NaN

definition maxAttemptsFor :: "real \<Rightarrow> real \<Rightarrow> attempts" where
  "maxAttemptsFor intervalMs maxMinutes =
     (if intervalMs \<noteq> 0 then Finite (max 1 \<lfloor>(maxMinutes * 60 * 1000) / intervalMs\<rfloor>)
      else if maxMinutes * 60 * 1000 > 0 then Infinity
      else if maxMinutes * 60 * 1000 < 0 then Finite 1
      else NaN)"

text \<open>\<^verbatim>\<open>attempt <= maxAttempts\<close> and \<^verbatim>\<open>attempt < maxAttempts\<close>; a comparison with \<^verbatim>\<open>NaN\<close> is false.\<close>

fun attempt_le :: "int \<Rightarrow> attempts \<Rightarrow> bool" where
  "attempt_le a (Finite n) = (a \<le> n)"
| "attempt_le a Infinity = True"
| "attempt_le a NaN = False"

fun attempt_lt :: "int \<Rightarrow> attempts \<Rightarrow> bool" where
  "attempt_lt a (Finite n) = (a < n)"
| "attempt_lt a Infinity = True"
| "attempt_lt a NaN = False"

text \<open>
  The laps of a response that ends the polling: the body of an \<^verbatim>\<open>ok\<close> response when
  it is a non-empty array.
\<close>

definition readyLaps :: "lap list response \<Rightarrow> lap list option" where
  "readyLaps resp = (case resp of Ok (l # ls) \<Rightarrow> Some (l # ls) | _ \<Rightarrow> None)"

text \<open>
  The \<^verbatim>\<open>for\<close> loop of \<^verbatim>\<open>fetchLapsWithRetry\<close>, from attempt number \<open>attempt\<close> on. The
  outer \<open>None\<close> is a loop that never ends; \<open>Some (None, st)\<close> is the return of
  \<^verbatim>\<open>null\<close>.
\<close>

partial_function (option) lapsLoop ::
  "'w service \<Rightarrow> int \<Rightarrow> ('w runState \<Rightarrow> bool \<times> 'w runState) \<Rightarrow> real \<Rightarrow> attempts \<Rightarrow> int
     \<Rightarrow> 'w runState \<Rightarrow> (lap list option \<times> 'w runState) option" where
  "lapsLoop svc activityId canContinue intervalMs maxAttempts attempt st =
     (if \<not> attempt_le attempt maxAttempts then Some (None, st)
      else
        let (go, st1) = canContinue st
        in if \<not> go then Some (None, st1)
           else
             let (resp, st2) = stravaGetLaps svc activityId st1
             in if readyLaps resp \<noteq> None then Some (readyLaps resp, st2)
                else lapsLoop svc activityId canContinue intervalMs maxAttempts (attempt + 1)
                       (if attempt_lt attempt maxAttempts then sleep svc intervalMs st2 else st2))"

declare lapsLoop.simps [code]

record retryPolicy =
  lapRetryIntervalSeconds :: real
  lapRetryMaxMinutes :: real
  maxReadsPerRun :: real

definition fetchLapsWithRetry ::
  "'w service \<Rightarrow> int \<Rightarrow> retryPolicy \<Rightarrow> ('w runState \<Rightarrow> bool \<times> 'w runState) \<Rightarrow> 'w runState
     \<Rightarrow> (lap list option \<times> 'w runState) option" where
  "fetchLapsWithRetry svc activityId retryPolicy canContinue st =
     (let intervalMs = lapRetryIntervalSeconds retryPolicy * 1000;
          maxMinutes = lapRetryMaxMinutes retryPolicy;
          maxAttempts = maxAttemptsFor intervalMs maxMinutes
      in lapsLoop svc activityId canContinue intervalMs maxAttempts 1 st)"

subsection \<open>Counting the attempts of the poller\<close>

text \<open>
  A fetch attempt is an \<open>EvLaps\<close> event; the poller adds nothing to the trace but
  fetch attempts and sleeps. \<open>neverReady\<close> describes a poller whose bound is
  \<^verbatim>\<open>Infinity\<close>, whose budget predicate always permits, and whose service always
  answers with an empty list of laps.
\<close>

fun isLapsEvent :: "event \<Rightarrow> bool" where
  "isLapsEvent (EvLaps i r) = True"
| "isLapsEvent e = False"

definition lapsFetches :: "event list \<Rightarrow> nat" where
  "lapsFetches evs = length (filter isLapsEvent evs)"

fun isPollEvent :: "event \<Rightarrow> bool" where
  "isPollEvent (EvLaps i r) = True"
| "isPollEvent (EvSleep ms) = True"
| "isPollEvent e = False"

definition neverReady :: "'w service \<Rightarrow> ('w runState \<Rightarrow> bool \<times> 'w runState) \<Rightarrow> attempts \<Rightarrow> bool" where
  "neverReady svc canContinue mx =
     (mx = Infinity \<and> canContinue = (\<lambda>s. (True, s)) \<and> (\<forall>j w. fst (svc_laps svc j w) = Ok []))"

section \<open>Weekly total aggregator\<close>

text \<open>
  The pattern \<^verbatim>\<open>/\s*\(Week Total: [^)]+\)\s*$/i\<close> matched from the first character of
  \<open>t\<close> to the end of the text. Each repetition is followed by a character outside its
  class, so the longest run is the only way to match.
\<close>

definition weekTotalTail :: "string \<Rightarrow> bool" where
  "weekTotalTail t =
     (let t1 = dropWhile isSpace t;
          t2 = drop 13 t1
      in startsWith (toLowerCase t1) ''(week total: ''
         \<and> takeWhile (\<lambda>c. c \<noteq> CHR '')'') t2 \<noteq> []
         \<and> (case dropWhile (\<lambda>c. c \<noteq> CHR '')'') t2 of
               [] \<Rightarrow> False
             | _ # t3 \<Rightarrow> list_all isSpace t3))"

text \<open>
  \<^verbatim>\<open>name.replace(pattern, '')\<close>: the leftmost position where the pattern matches; the
  match runs to the end, so what is left is the text before it.
\<close>

fun stripWeekTotal :: "string \<Rightarrow> string" where
  "stripWeekTotal [] = []"
| "stripWeekTotal (c # cs) = (if weekTotalTail (c # cs) then [] else c # stripWeekTotal cs)"

definition appendWeekTotalSuffix :: "string \<Rightarrow> string \<Rightarrow> string" where
  "appendWeekTotalSuffix name suffix =
     (let cleaned = trim (stripWeekTotal name)
      in trim (cleaned @ '' '' @ suffix))"

definition formatWeekTotalSuffix :: "real \<Rightarrow> string \<Rightarrow> string" where
  "formatWeekTotalSuffix totalMeters unitSystem =
     (let units = (if unitSystem = ''mi'' then totalMeters / 1609.344 else totalMeters / 1000);
          v = toFixed1 units;
          label = (if unitSystem = ''mi'' then ''mi'' else ''km'')
      in ''(Week Total: '' @ v @ '' '' @ label @ '')'')"

text \<open>The body of an \<^verbatim>\<open>ok\<close> response.\<close>

definition okBody :: "'a response \<Rightarrow> 'a option" where
  "okBody resp = (case resp of Ok b \<Rightarrow> Some b | NotOk _ _ \<Rightarrow> None)"

text \<open>
  The \<^verbatim>\<open>while (true)\<close> loop that lists the week page by page. The outer \<open>None\<close> is
  a loop that never ends; \<open>Some (None, st)\<close> is the \<^verbatim>\<open>return\<close> out of the function
  (no read left, or a listing that failed); \<open>Some (Some activities, st)\<close> is the
  \<^verbatim>\<open>break\<close>.
\<close>

partial_function (option) pagesLoop ::
  "'w service \<Rightarrow> ('w runState \<Rightarrow> bool \<times> 'w runState) \<Rightarrow> int \<Rightarrow> int \<Rightarrow> int \<Rightarrow> int
     \<Rightarrow> activity list \<Rightarrow> 'w runState \<Rightarrow> (activity list option \<times> 'w runState) option" where
  "pagesLoop svc consumeRead perPage afterEpoch beforeEpoch page activities st =
     (let (go, st1) = consumeRead st
      in if \<not> go then Some (None, st1)
         else
           let (resp, st2) = stravaGetListPage svc perPage page afterEpoch beforeEpoch st1
           in case okBody resp of
                None \<Rightarrow> Some (None, st2)
              | Some batch \<Rightarrow>
                  if int (length batch) < perPage then Some (Some (activities @ batch), st2)
                  else pagesLoop svc consumeRead perPage afterEpoch beforeEpoch (page + 1) (activities @ batch) st2)"

declare pagesLoop.simps [code]

text \<open>
  The time behind \<^verbatim>\<open>start_date\<close>, for the sort; the sort runs on activities that have one.
\<close>

definition startTime :: "'dt platform \<Rightarrow> activity \<Rightarrow> real" where
  "startTime P a = (case act_start_date a of Some d \<Rightarrow> dateGetTime P d | None \<Rightarrow> 0)"

text \<open>
  What \<^verbatim>\<open>maybeFinalizePreviousWeek\<close> does once the week is listed, up to the rename it
  decides on: the target's id and its new name, or \<open>None\<close> for each \<^verbatim>\<open>return\<close>. The
  sort is stable and puts the latest start first.
\<close>

definition weekTotalRename :: "'dt platform \<Rightarrow> settings \<Rightarrow> activity list \<Rightarrow> (int \<times> update) option" where
  "weekTotalRename P settings activities =
     (if activities = [] then None
      else
        let runs = filter (\<lambda>a. looksLikeRun (act_type a) \<or> looksLikeRun (act_sport_type a)) activities
        in if runs = [] then None
           else
             let totalMeters = foldl (\<lambda>sum a. sum + (case act_distance a of Some d \<Rightarrow> d | None \<Rightarrow> 0)) 0 runs;
                 lastRun = find (\<lambda>a. act_workout_type a \<noteq> Some 1)
                             (sort_key (\<lambda>a. - startTime P a) (filter (\<lambda>a. truthy (act_start_date a)) runs))
             in case lastRun of
                  None \<Rightarrow> None
                | Some target \<Rightarrow>
                    let suffix = formatWeekTotalSuffix totalMeters
                                   (if cfg_unitSystem settings = ''km'' then ''km'' else ''mi'')
                    in if (case act_name target of Some n \<Rightarrow> n \<noteq> [] \<and> str_includes n suffix | None \<Rightarrow> False)
                       then None
                       else
                         let newName = appendWeekTotalSuffix
                                         (case act_name target of Some n \<Rightarrow> n | None \<Rightarrow> ''Run'') suffix
                         in Some (act_id target, \<lparr>upd_name = Some newName, upd_description = None\<rparr>))"

definition maybeFinalizePreviousWeek ::
  "'dt platform \<Rightarrow> 'w service \<Rightarrow> 'dt \<Rightarrow> settings \<Rightarrow> ('w runState \<Rightarrow> bool \<times> 'w runState)
     \<Rightarrow> 'w runState \<Rightarrow> 'w runState option" where
  "maybeFinalizePreviousWeek P svc now settings consumeRead st =
     (let nowMinutes = real_of_int (dt_hour P now * 60 + dt_minute P now);
          startMinutes = (case parseTimeHM P (cfg_activeHours_start settings) of
                            Some (h, m) \<Rightarrow> h * 60 + m
                          | None \<Rightarrow> 0)
      in if nowMinutes > startMinutes + 30 then Some st
         else
           let currentWeekStart = startOfWeek P now
                                    (if cfg_weekStart settings = ''sunday'' then ''sunday'' else ''monday'');
               previousWeekStart = dt_minusDays P currentWeekStart 7;
               previousWeekEnd = currentWeekStart;
               afterEpoch = \<lfloor>dt_toSeconds P previousWeekStart\<rfloor>;
               beforeEpoch = \<lfloor>dt_toSeconds P previousWeekEnd\<rfloor>
           in case pagesLoop svc consumeRead 200 afterEpoch beforeEpoch 1 [] st of
                None \<Rightarrow> None
              | Some (None, st1) \<Rightarrow> Some st1
              | Some (Some activities, st1) \<Rightarrow>
                  (case weekTotalRename P settings activities of
                     None \<Rightarrow> Some st1
                   | Some (target, payload) \<Rightarrow> Some (snd (stravaPutActivity svc target payload st1))))"

subsection \<open>The parts of the weekly decision\<close>

text \<open>
  The run-type activities of the week, the target the aggregator selects among them
  (the latest start that is not a race), and the suffix it computes from their total
  distance, as \<open>weekTotalRename\<close> computes them; the activities a trace has listed
  page by page; and a list of activities after a rename has taken effect in it.
\<close>

definition weekRuns :: "activity list \<Rightarrow> activity list" where
  "weekRuns activities = filter (\<lambda>a. looksLikeRun (act_type a) \<or> looksLikeRun (act_sport_type a)) activities"

definition weekTarget :: "'dt platform \<Rightarrow> activity list \<Rightarrow> activity option" where
  "weekTarget P activities =
     find (\<lambda>a. act_workout_type a \<noteq> Some 1)
       (sort_key (\<lambda>a. - startTime P a) (filter (\<lambda>a. truthy (act_start_date a)) (weekRuns activities)))"

definition weekSuffix :: "settings \<Rightarrow> activity list \<Rightarrow> string" where
  "weekSuffix settings activities =
     formatWeekTotalSuffix
       (foldl (\<lambda>sum a. sum + (case act_distance a of Some d \<Rightarrow> d | None \<Rightarrow> 0)) 0 (weekRuns activities))
       (if cfg_unitSystem settings = ''km'' then ''km'' else ''mi'')"

fun listedActivities :: "event list \<Rightarrow> activity list" where
  "listedActivities [] = []"
| "listedActivities (EvListPage perPage page a b (Ok batch) # evs) = batch @ listedActivities evs"
| "listedActivities (e # evs) = listedActivities evs"

fun isPut :: "event \<Rightarrow> bool" where
  "isPut (EvPut i u r) = True"
| "isPut e = False"

definition renameIn :: "int \<Rightarrow> update \<Rightarrow> activity list \<Rightarrow> activity list" where
  "renameIn i u acts =
     map (\<lambda>a. if act_id a = i then (case upd_name u of Some n \<Rightarrow> a\<lparr>act_name := Some n\<rparr> | None \<Rightarrow> a) else a) acts"

definition renamed :: "int \<Rightarrow> update \<Rightarrow> activity \<Rightarrow> activity" where
  "renamed i u a =
     (if act_id a = i then (case upd_name u of Some n \<Rightarrow> a\<lparr>act_name := Some n\<rparr> | None \<Rightarrow> a) else a)"

section \<open>The run\<close>

text \<open>
  The two callbacks \<^verbatim>\<open>main\<close> passes down: \<^verbatim>\<open>readsUsed += 1; return readsUsed < maxReadsPerRun\<close>.
\<close>

definition consumeRead :: "retryPolicy \<Rightarrow> 'w runState \<Rightarrow> bool \<times> 'w runState" where
  "consumeRead retryPolicy st =
     (real_of_int (readsUsed st + 1) < maxReadsPerRun retryPolicy, st\<lparr>readsUsed := readsUsed st + 1\<rparr>)"

text \<open>
  The body of the loop over the listed activities, after the test of the read cap. Each
  \<^verbatim>\<open>continue\<close> returns the state reached. \<^verbatim>\<open>buildUpdate\<close> returns an object on every
  path, so the test \<^verbatim>\<open>!update\<close> never holds.
\<close>

definition processActivity ::
  "'w service \<Rightarrow> settings \<Rightarrow> retryPolicy \<Rightarrow> paceRange \<Rightarrow> string list \<Rightarrow> activity \<Rightarrow> 'w runState
     \<Rightarrow> 'w runState option" where
  "processActivity svc settings retryPolicy paceRange defaultNames summary st =
     (if \<not> looksLikeRun (act_type summary) \<and> \<not> looksLikeRun (act_sport_type summary) then Some st
      else if isAlreadyRenamed (act_name summary) then Some st
      else if \<not> isDefaultName (act_name summary) defaultNames then Some st
      else
        let (detailResp, st1) = stravaGetDetail svc (act_id summary) st;
            st2 = st1\<lparr>readsUsed := readsUsed st1 + 1\<rparr>
        in case detailResp of
             NotOk status txt \<Rightarrow> Some st2
           | Ok detail \<Rightarrow>
               if act_workout_type detail = Some 1 then Some st2
               else if \<not> isDefaultName (act_name detail) defaultNames then Some st2
               else
                 (case fetchLapsWithRetry svc (act_id detail) retryPolicy (consumeRead retryPolicy) st2 of
                    None \<Rightarrow> None
                  | Some (None, st3) \<Rightarrow> Some st3
                  | Some (Some laps, st3) \<Rightarrow>
                      let upd = buildUpdate detail laps paceRange settings
                      in Some (snd (stravaPutActivity svc (act_id detail) upd st3))))"

fun processActivities ::
  "'w service \<Rightarrow> settings \<Rightarrow> retryPolicy \<Rightarrow> paceRange \<Rightarrow> string list \<Rightarrow> activity list \<Rightarrow> 'w runState
     \<Rightarrow> 'w runState option" where
  "processActivities svc settings retryPolicy paceRange defaultNames [] st = Some st"
| "processActivities svc settings retryPolicy paceRange defaultNames (summary # rest) st =
     (if real_of_int (readsUsed st) \<ge> maxReadsPerRun retryPolicy then Some st
      else
        case processActivity svc settings retryPolicy paceRange defaultNames summary st of
          None \<Rightarrow> None
        | Some st' \<Rightarrow> processActivities svc settings retryPolicy paceRange defaultNames rest st')"

text \<open>
  \<^verbatim>\<open>main()\<close>, given the settings loaded, the environment, the time \<^verbatim>\<open>now\<close> and the world
  at the start. \<open>Inl\<close> is the error thrown, \<open>Inr ()\<close> a normal return; the state
  holds the trace of the run. The outer \<open>None\<close> is a run that never ends.
\<close>

definition main ::
  "'dt platform \<Rightarrow> 'w service \<Rightarrow> settings \<Rightarrow> env \<Rightarrow> 'dt \<Rightarrow> 'w
     \<Rightarrow> ((error + unit) \<times> 'w runState) option" where
  "main P svc settings e now w =
     (let st0 = \<lparr>world = w, trace = [], readsUsed = 0, refreshToken = STRAVA_REFRESH_TOKEN e\<rparr>
      in if \<not> isWithinActiveHours P settings now then Some (Inr (), st0)
         else
           let retryPolicy =
                 \<lparr>lapRetryIntervalSeconds = (case cfg_lapRetryIntervalSeconds settings of Some v \<Rightarrow> v | None \<Rightarrow> 60),
                  lapRetryMaxMinutes = (case cfg_lapRetryMaxMinutes settings of Some v \<Rightarrow> v | None \<Rightarrow> 30),
                  maxReadsPerRun = (case cfg_maxReadsPerRun settings of Some v \<Rightarrow> v | None \<Rightarrow> 90)\<rparr>
           in if \<not> truthy (STRAVA_CLIENT_ID e) \<or> \<not> truthy (STRAVA_CLIENT_SECRET e)
                 \<or> \<not> truthy (STRAVA_REFRESH_TOKEN e)
              then Some (Inl MissingCredentials, st0)
              else
                case paceRangeFromSettings P settings of
                  None \<Rightarrow> Some (Inl InvalidPaceRange, st0)
                | Some paceRange \<Rightarrow>
                    (case refreshAccessToken P svc e st0 of
                       (Inl err, st1) \<Rightarrow> Some (Inl err, st1)
                     | (Inr accessToken, st1) \<Rightarrow>
                         let midnight = dt_startOfDay P now;
                             afterEpoch = \<lfloor>dt_toSeconds P midnight\<rfloor>;
                             perPage = 50;
                             (listResp, st2) = stravaGetList svc perPage afterEpoch (st1\<lparr>readsUsed := 0\<rparr>);
                             st3 = st2\<lparr>readsUsed := readsUsed st2 + 1\<rparr>
                         in case listResp of
                              NotOk status txt \<Rightarrow> Some (Inl (ListActivitiesFailed status txt), st3)
                            | Ok activities \<Rightarrow>
                                let defaultNames = (case cfg_defaultRunNames settings of Some ns \<Rightarrow> ns | None \<Rightarrow> [])
                                in case processActivities svc settings retryPolicy paceRange defaultNames activities st3 of
                                     None \<Rightarrow> None
                                   | Some st4 \<Rightarrow>
                                       if cfg_weekTotals settings then
                                         (case maybeFinalizePreviousWeek P svc now settings (consumeRead retryPolicy) st4 of
                                            None \<Rightarrow> None
                                          | Some st5 \<Rightarrow> Some (Inr (), st5))
                                       else Some (Inr (), st4)))"

subsection \<open>The update of a run without intervals\<close>

text \<open>
  The rename the program is said to issue when no interval workout is found: the name
  \<^verbatim>\<open>Easy Run\<close> and, as description, the average heart rate line, with the percentage
  of the maximum when a maximum other than zero is configured, or the empty text when
  the activity has no average heart rate.
\<close>

definition easyRunUpdate :: "activity \<Rightarrow> settings \<Rightarrow> update" where
  "easyRunUpdate act settings =
     \<lparr>upd_name = Some ''Easy Run'',
      upd_description = Some
        (case act_average_heartrate act of
           None \<Rightarrow> ''''
         | Some avgHr \<Rightarrow>
             (case cfg_maxHr settings of
                None \<Rightarrow> ''Avg HR: '' @ show_int (Math_round avgHr) @ '' bpm''
              | Some m \<Rightarrow>
                  if m = 0 then ''Avg HR: '' @ show_int (Math_round avgHr) @ '' bpm''
                  else ''Avg HR: '' @ show_int (Math_round avgHr) @ '' bpm (''
                         @ show_int (Math_round (real_of_int (Math_round avgHr) / m * 100)) @ ''% max)''))\<rparr>"

subsection \<open>Renames and the default-name check, on a trace\<close>

text \<open>
  \<open>putsJustified defaults seen evs\<close>: every rename in \<open>evs\<close> targets the activity
  of the detail read last before it, that detail was read successfully, and its name is
  one of the default names; \<open>seen\<close> is the detail read last before \<open>evs\<close>. A
  detail justifies one rename only. The other notions sort the events: the week listing,
  the events before the activity loop, the events of one loop, the events of the weekly
  aggregator.
\<close>

fun putsJustified :: "string list \<Rightarrow> activity option \<Rightarrow> event list \<Rightarrow> bool" where
  "putsJustified defaults seen [] = True"
| "putsJustified defaults seen (EvDetail i (Ok d) # evs) = putsJustified defaults (Some d) evs"
| "putsJustified defaults seen (EvDetail i (NotOk s t) # evs) = putsJustified defaults None evs"
| "putsJustified defaults seen (EvPut i u r # evs) =
     ((case seen of
         Some d \<Rightarrow> act_id d = i \<and> isDefaultName (act_name d) defaults
       | None \<Rightarrow> False)
      \<and> putsJustified defaults None evs)"
| "putsJustified defaults seen (e # evs) = putsJustified defaults seen evs"

fun isListPage :: "event \<Rightarrow> bool" where
  "isListPage (EvListPage perPage page a b r) = True"
| "isListPage e = False"

fun isSetupEvent :: "event \<Rightarrow> bool" where
  "isSetupEvent (EvToken a b c r) = True"
| "isSetupEvent (EvGhGetKey a r) = True"
| "isSetupEvent (EvGhPutSecret a b c d r) = True"
| "isSetupEvent (EvList a b r) = True"
| "isSetupEvent e = False"

definition quiet :: "event \<Rightarrow> bool" where
  "quiet e = (isPollEvent e \<or> isSetupEvent e)"

definition loopEvents :: "string list \<Rightarrow> event list \<Rightarrow> bool" where
  "loopEvents defaults evs = ((\<forall>seen. putsJustified defaults seen evs) \<and> list_all (\<lambda>e. \<not> isListPage e) evs)"

definition weeklyEvents :: "event list \<Rightarrow> bool" where
  "weeklyEvents evs = (evs = [] \<or> isListPage (hd evs))"

section \<open>A platform and a service to run the model on\<close>

text \<open>
  A small instance of the platform, for running the model on concrete inputs: a
  \<^verbatim>\<open>DateTime\<close> is a number of seconds since the epoch, read in UTC (day 0 is a
  Thursday); \<open>simpleNumber\<close> reads an unsigned decimal numeral with an optional
  fraction, the empty string as 0 and anything else as not a number;
  \<open>simpleGetTime\<close> reads the digits of a timestamp as one number, which orders
  UTC timestamps of one format as their times do. In the examples the time 367800 is
  Monday 5 January 1970, 06:10 UTC, and 377800 is 08:56 of that day.
\<close>

definition digitValue :: "char \<Rightarrow> int" where
  "digitValue c = int (length (takeWhile (\<lambda>d. d \<noteq> c) ''0123456789''))"

definition digitsValue :: "string \<Rightarrow> int" where
  "digitsValue ds = foldl (\<lambda>n c. 10 * n + digitValue c) 0 ds"

definition simpleNumber :: "string \<Rightarrow> real option" where
  "simpleNumber s =
     (let t = trim s;
          ip = takeWhile isDigit t;
          r = dropWhile isDigit t
      in if t = [] then Some 0
         else if r = [] then Some (real_of_int (digitsValue ip))
         else if hd r = CHR ''.'' \<and> list_all isDigit (tl r) \<and> (ip \<noteq> [] \<or> tl r \<noteq> [])
           then Some (real_of_int (digitsValue ip) + real_of_int (digitsValue (tl r)) / 10 ^ length (tl r))
         else None)"

definition simpleGetTime :: "string \<Rightarrow> real" where
  "simpleGetTime s = real_of_int (digitsValue (filter isDigit s))"

definition simplePlatform :: "int platform" where
  "simplePlatform =
     \<lparr>toNumber = simpleNumber,
      dt_hour = (\<lambda>t. (t div 3600) mod 24),
      dt_minute = (\<lambda>t. (t div 60) mod 60),
      dt_weekday = (\<lambda>t. (t div 86400 + 3) mod 7 + 1),
      dt_startOfDay = (\<lambda>t. t - t mod 86400),
      dt_minusDays = (\<lambda>t n. t - 86400 * n),
      dt_toSeconds = real_of_int,
      dateGetTime = simpleGetTime,
      sealSecret = (\<lambda>v key. v)\<rparr>"

text \<open>
  A service whose world is the list of its activities: it answers every request from
  that list and one list of laps, refuses nothing, and applies a rename to the activity
  of that id.
\<close>

definition listService :: "lap list \<Rightarrow> activity list service" where
  "listService laps =
     \<lparr>svc_token = (\<lambda>cid secret refresh w. (Ok (''token'', None), w)),
      svc_ghGetKey = (\<lambda>repo w. (NotOk 404 ''no key'', w)),
      svc_ghPutSecret = (\<lambda>repo name v kid w. (NotOk 404 ''no secret'', w)),
      svc_list = (\<lambda>perPage after w. (Ok w, w)),
      svc_detail = (\<lambda>i w. (case find (\<lambda>a. act_id a = i) w of Some a \<Rightarrow> Ok a | None \<Rightarrow> NotOk 404 ''not found'', w)),
      svc_laps = (\<lambda>i w. (Ok laps, w)),
      svc_put = (\<lambda>i u w. (Ok (), renameIn i u w)),
      svc_listPage = (\<lambda>perPage page after before w. (Ok w, w)),
      svc_sleep = (\<lambda>ms w. w)\<rparr>"

definition exampleSettings :: settings where
  "exampleSettings =
     \<lparr>cfg_activeHours_start = ''06:00'',
      cfg_activeHours_end = ''22:00'',
      cfg_paceRange_fastest = ''4:00'',
      cfg_paceRange_slowest = ''6:00'',
      cfg_defaultRunNames = Some [''Morning Run'', ''Evening Run''],
      cfg_unitSystem = ''km'',
      cfg_maxHr = Some 190,
      cfg_weekStart = ''monday'',
      cfg_lapRetryIntervalSeconds = None,
      cfg_lapRetryMaxMinutes = None,
      cfg_maxReadsPerRun = None,
      cfg_weekTotals = True\<rparr>"

definition exampleEnv :: env where
  "exampleEnv =
     \<lparr>STRAVA_CLIENT_ID = Some ''id'',
      STRAVA_CLIENT_SECRET = Some ''secret'',
      STRAVA_REFRESH_TOKEN = Some ''refresh'',
      GH_PAT = None,
      GITHUB_REPOSITORY = None\<rparr>"

definition exampleRun :: "int \<Rightarrow> string \<Rightarrow> string \<Rightarrow> activity" where
  "exampleRun i n d =
     \<lparr>act_id = i, act_name = Some n, act_type = Some ''Run'', act_sport_type = Some ''Run'',
      act_workout_type = None, act_distance = Some 5000, act_average_heartrate = Some 151.5,
      act_start_date = Some d\<rparr>"

definition exampleLap :: "int \<Rightarrow> real \<Rightarrow> real \<Rightarrow> lap" where
  "exampleLap i d t = \<lparr>lap_index = i, lap_name = ''Lap'', distance = d, moving_time = t, merged = False\<rparr>"

text \<open>
  Three laps whose distances are the doubles nearest to 200.1, 1000.4 and 1000.3 m: the
  first at 10 min/km, the other two at 5 min/km.
\<close>

definition roundingLaps :: "lap list" where
  "roundingLaps =
     [\<lparr>lap_index = 1, lap_name = ''Lap 1'', distance = fl 200.1, moving_time = 120, merged = False\<rparr>,
      \<lparr>lap_index = 2, lap_name = ''Lap 2'', distance = fl 1000.4, moving_time = 300, merged = False\<rparr>,
      \<lparr>lap_index = 3, lap_name = ''Lap 3'', distance = fl 1000.3, moving_time = 300, merged = False\<rparr>]"

section \<open>Rounding of doubles\<close>

subsection \<open>Whole numbers are added exactly\<close>

lemma binadeDown_le: "binadeDown x e \<le> e"
proof (induction x e rule: binadeDown.induct)
  case (1 x e)
  then show ?case by (subst binadeDown.simps) (auto simp: le_diff_eq)
qed

lemma binadeUp_le: "x < 2 * 2 ^ k \<Longrightarrow> binadeUp x e \<le> e + int k"
proof (induction k arbitrary: x e)
  case 0
  then show ?case by (subst binadeUp.simps) simp
next
  case (Suc k)
  show ?case
  proof (cases "x < 2 \<or> 1023 \<le> e")
    case True
    then show ?thesis by (subst binadeUp.simps) auto
  next
    case False
    have "x / 2 < 2 * 2 ^ k" using Suc.prems by simp
    then have "binadeUp (x / 2) (e + 1) \<le> e + 1 + int k" by (rule Suc.IH)
    then show ?thesis using False by (subst binadeUp.simps) simp
  qed
qed

lemma roundEven_of_int: "roundEven (real_of_int n) = n"
  by (simp add: roundEven_def)

lemma pow2_pos: "0 < pow2 k"
  by (simp add: pow2_def)

lemma fl_zero: "fl 0 = 0"
  by (simp add: fl_def roundEven_def)

lemma pow2_neg: "pow2 (- int j) = 1 / 2 ^ j"
  by (cases "j = 0") (simp_all add: pow2_def)

lemma binade_le: "x < 2 * 2 ^ k \<Longrightarrow> binade x \<le> int k"
  using binadeUp_le [of x k 0] binadeDown_le [of x 0] by (simp add: binade_def)

lemma fl_of_int:
  assumes "\<bar>real_of_int n\<bar> < 2 ^ 53"
  shows "fl (real_of_int n) = real_of_int n"
proof -
  have "\<bar>real_of_int n\<bar> < 2 * 2 ^ 52" using assms by simp
  then have b: "binade \<bar>real_of_int n\<bar> \<le> int 52" by (rule binade_le)
  define j where "j = nat (52 - binade \<bar>real_of_int n\<bar>)"
  have "binade \<bar>real_of_int n\<bar> - 52 = - int j" using b by (simp add: j_def)
  then have q: "pow2 (binade \<bar>real_of_int n\<bar> - 52) = 1 / 2 ^ j"
    by (simp add: pow2_neg)
  have "real_of_int n / (1 / 2 ^ j) = real_of_int (n * 2 ^ j)" by simp
  then have "roundEven (real_of_int n / (1 / 2 ^ j)) = n * 2 ^ j"
    using roundEven_of_int by metis
  then show ?thesis
    by (simp add: fl_def q)
qed

lemma js_add_of_int:
  "\<bar>real_of_int (a + b)\<bar> < 2 ^ 53 \<Longrightarrow> js_add (real_of_int a) (real_of_int b) = real_of_int (a + b)"
  using fl_of_int [of "a + b"] by (simp add: js_add_def)

lemma js_add_numeral:
  "(numeral a + numeral b :: real) < 2 ^ 53 \<Longrightarrow> js_add (numeral a) (numeral b) = numeral a + numeral b"
  using js_add_of_int [of "numeral a" "numeral b"] by simp

lemma js_add_zero_numeral:
  "(numeral b :: real) < 2 ^ 53 \<Longrightarrow> js_add 0 (numeral b) = numeral b"
  using js_add_of_int [of 0 "numeral b"] by simp

text \<open>
  The double sum \<^verbatim>\<open>xs.reduce((sum, x) => sum + x, 0)\<close> of whole numbers that add up
  to less than \<open>2\<^sup>5\<^sup>3\<close> is their sum.
\<close>

lemma foldl_js_add_exact:
  assumes "\<forall>x\<in>set xs. x \<in> \<nat>" "a \<in> \<nat>" "a + sum_list xs < 2 ^ 53"
  shows "foldl js_add a xs = a + sum_list xs"
  using assms
proof (induction xs arbitrary: a)
  case Nil
  then show ?case by simp
next
  case (Cons x xs)
  obtain m where m: "a = real_of_int (int m)" using Cons.prems(2) by (auto elim: Nats_cases)
  obtain k where k: "x = real_of_int (int k)" using Cons.prems(1) by (auto elim: Nats_cases)
  have nn: "0 \<le> sum_list xs"
  proof (rule sum_list_nonneg)
    fix y assume "y \<in> set xs"
    then have "y \<in> \<nat>" using Cons.prems(1) by simp
    then show "0 \<le> y" by (auto elim: Nats_cases)
  qed
  have "\<bar>real_of_int (int m + int k)\<bar> < 2 ^ 53"
    using Cons.prems(3) nn m k by simp
  then have s: "js_add a x = a + x"
    using js_add_of_int [of "int m" "int k"] m k by simp
  have "a + x \<in> \<nat>" using Cons.prems by (simp add: Nats_add)
  then show ?case
    using Cons.IH [of "a + x"] Cons.prems s by (simp add: add.assoc)
qed

subsection \<open>The error of one rounding and of a sum\<close>

lemma pow2_powi: "pow2 k = 2 powi k"
  by (simp add: pow2_def power_int_def power_one_over inverse_eq_divide)

lemma pow2_add: "pow2 (a + b) = pow2 a * pow2 b"
  by (simp add: pow2_powi power_int_add)

lemma pow2_0: "pow2 0 = 1"
  by (simp add: pow2_def)

lemma pow2_1: "pow2 1 = 2"
  by (simp add: pow2_def)

lemma pow2_m52: "pow2 (- 52) = 1 / 2 ^ 52"
  by (simp add: pow2_def)

lemma pow2_succ: "pow2 (e + 1) = 2 * pow2 e"
  using pow2_add [of e 1] by (simp add: pow2_1)

lemma pow2_sub52: "pow2 (e - 52) = pow2 e / 2 ^ 52"
  using pow2_add [of e "- 52"] by (simp add: pow2_m52)

lemma pow2_pred: "2 * pow2 (e - 1) = pow2 e"
  using pow2_succ [of "e - 1"] by simp

lemma pow2_ge_1: "0 \<le> k \<Longrightarrow> 1 \<le> pow2 k"
  by (simp add: pow2_def)

lemma pow2_le_1: "k \<le> 0 \<Longrightarrow> pow2 k \<le> 1"
  by (cases "k = 0") (simp_all add: pow2_def)

lemma binadeUp_lower: "1 \<le> x \<Longrightarrow> pow2 (binadeUp x e) \<le> x * pow2 e"
proof (induction x e rule: binadeUp.induct)
  case (1 x e)
  show ?case
  proof (cases "x < 2 \<or> 1023 \<le> e")
    case True
    have "pow2 e \<le> x * pow2 e"
      using "1.prems" pow2_pos [of e] by simp
    then show ?thesis using True by (subst binadeUp.simps) auto
  next
    case False
    then have "pow2 (binadeUp (x / 2) (e + 1)) \<le> x / 2 * pow2 (e + 1)"
      using "1.IH" by simp
    then show ?thesis using False by (subst binadeUp.simps) (simp add: pow2_succ)
  qed
qed

lemma binadeDown_lower:
  "pow2 (- 1022 - e) \<le> x \<Longrightarrow> pow2 (binadeDown x e) \<le> x * pow2 e"
proof (induction x e rule: binadeDown.induct)
  case (1 x e)
  show ?case
  proof (cases "1 \<le> x")
    case True
    have "pow2 e \<le> x * pow2 e"
      using True pow2_pos [of e] by simp
    then show ?thesis using True by (subst binadeDown.simps) auto
  next
    case x: False
    show ?thesis
    proof (cases "e \<le> - 1022")
      case True
      then have "1 \<le> pow2 (- 1022 - e)" by (simp add: pow2_ge_1)
      then show ?thesis using "1.prems" x by simp
    next
      case False
      have "pow2 (- 1022 - (e - 1)) = 2 * pow2 (- 1022 - e)"
        using pow2_succ [of "- 1022 - e"] by (simp add: algebra_simps)
      then have "pow2 (- 1022 - (e - 1)) \<le> 2 * x" using "1.prems" by simp
      then have "pow2 (binadeDown (2 * x) (e - 1)) \<le> 2 * x * pow2 (e - 1)"
        using "1.IH" x False by simp
      then have "pow2 (binadeDown (2 * x) (e - 1)) \<le> x * pow2 e"
        using pow2_pred [of e] by (simp add: algebra_simps)
      then show ?thesis using x False by (subst binadeDown.simps) simp
    qed
  qed
qed

lemma binadeDown_bottom:
  "x < pow2 (- 1022 - e) \<Longrightarrow> - 1022 \<le> e \<Longrightarrow> binadeDown x e = - 1022"
proof (induction x e rule: binadeDown.induct)
  case (1 x e)
  have "pow2 (- 1022 - e) \<le> 1" using "1.prems" by (simp add: pow2_le_1)
  then have x: "\<not> 1 \<le> x" using "1.prems" by simp
  show ?case
  proof (cases "e \<le> - 1022")
    case True
    then show ?thesis using "1.prems" by (subst binadeDown.simps) simp
  next
    case False
    have "pow2 (- 1022 - (e - 1)) = 2 * pow2 (- 1022 - e)"
      using pow2_succ [of "- 1022 - e"] by (simp add: algebra_simps)
    then have "2 * x < pow2 (- 1022 - (e - 1))" using "1.prems" by simp
    then have "binadeDown (2 * x) (e - 1) = - 1022"
      using "1.IH" x False by simp
    then show ?thesis using x False by (subst binadeDown.simps) simp
  qed
qed

lemma binade_lower: "pow2 (- 1022) \<le> x \<Longrightarrow> pow2 (binade x) \<le> x"
  using binadeUp_lower [of x 0] binadeDown_lower [of 0 x] by (simp add: binade_def pow2_0)

lemma binade_bottom: "x < pow2 (- 1022) \<Longrightarrow> binade x = - 1022"
proof -
  assume a: "x < pow2 (- 1022)"
  have "pow2 (- 1022) \<le> 1" by (simp add: pow2_le_1)
  then have "\<not> 1 \<le> x" using a by simp
  then show ?thesis using binadeDown_bottom [of x 0] a by (simp add: binade_def)
qed

lemma roundEven_error: "\<bar>real_of_int (roundEven y) - y\<bar> \<le> 1 / 2"
  unfolding roundEven_def Let_def by (auto; linarith)

lemma fl_quantum_error: "\<bar>fl x - x\<bar> \<le> pow2 (binade \<bar>x\<bar> - 52) / 2"
proof -
  let ?q = "pow2 (binade \<bar>x\<bar> - 52)"
  have q: "0 < ?q" by (rule pow2_pos)
  have "fl x - x = (real_of_int (roundEven (x / ?q)) - x / ?q) * ?q"
    using q by (simp add: fl_def Let_def algebra_simps)
  then have "\<bar>fl x - x\<bar> = \<bar>real_of_int (roundEven (x / ?q)) - x / ?q\<bar> * ?q"
    using q by (simp add: abs_mult)
  also have "\<dots> \<le> 1 / 2 * ?q"
    using roundEven_error [of "x / ?q"] q by (intro mult_right_mono) simp_all
  finally show ?thesis by simp
qed

text \<open>The error of one rounding: relative \<open>2\<^sup>-\<^sup>5\<^sup>3\<close>, or absolute \<open>2\<^sup>-\<^sup>1\<^sup>0\<^sup>7\<^sup>5\<close> below the normal range.\<close>

lemma fl_error: "\<bar>fl x - x\<bar> \<le> \<bar>x\<bar> / 2 ^ 53 + pow2 (- 1022) / 2 ^ 53"
proof (cases "pow2 (- 1022) \<le> \<bar>x\<bar>")
  case True
  have "pow2 (binade \<bar>x\<bar> - 52) = pow2 (binade \<bar>x\<bar>) / 2 ^ 52"
    by (rule pow2_sub52)
  also have "\<dots> \<le> \<bar>x\<bar> / 2 ^ 52"
    using binade_lower [OF True] by (simp add: divide_right_mono)
  finally have "pow2 (binade \<bar>x\<bar> - 52) / 2 \<le> \<bar>x\<bar> / 2 ^ 53" by simp
  moreover have "0 \<le> pow2 (- 1022) / 2 ^ 53" using pow2_pos [of "- 1022"] by simp
  ultimately show ?thesis using fl_quantum_error [of x] by linarith
next
  case False
  then have "binade \<bar>x\<bar> = - 1022" using binade_bottom by simp
  then have "pow2 (binade \<bar>x\<bar> - 52) = pow2 (- 1022) / 2 ^ 52"
    by (simp only: pow2_sub52)
  then have "pow2 (binade \<bar>x\<bar> - 52) / 2 = pow2 (- 1022) / 2 ^ 53" by simp
  moreover have "0 \<le> \<bar>x\<bar> / 2 ^ 53" by simp
  ultimately show ?thesis using fl_quantum_error [of x] by linarith
qed

text \<open>The double sum \<^verbatim>\<open>xs.reduce((sum, x) => sum + x, 0)\<close> against the exact sum.\<close>

lemma foldl_js_add_error:
  assumes "\<forall>x\<in>set xs. 0 \<le> x"
  shows "\<bar>foldl js_add 0 xs - sum_list xs\<bar>
           \<le> ((1 + 1 / 2 ^ 53) ^ length xs - 1) * (sum_list xs + pow2 (- 1022))"
  using assms
proof (induction xs rule: rev_induct)
  case Nil
  show ?case by simp
next
  case (snoc x xs)
  let ?u = "1 / 2 ^ 53 :: real"
  let ?c = "pow2 (- 1022)"
  let ?s = "foldl js_add 0 xs"
  let ?S = "sum_list xs"
  let ?K = "(1 + ?u) ^ length xs - 1"
  have x: "0 \<le> x" and S: "0 \<le> ?S" using snoc.prems by (auto intro: sum_list_nonneg)
  have c: "0 < ?c" by (rule pow2_pos)
  have K: "0 \<le> ?K" by simp
  have ih: "\<bar>?s - ?S\<bar> \<le> ?K * (?S + ?c)" using snoc by simp
  have "?K * (?S + ?c) \<le> ?K * (?S + x + ?c)"
    using K x by (intro mult_left_mono) simp_all
  then have e1: "\<bar>?s - ?S\<bar> \<le> ?K * (?S + x + ?c)" using ih by linarith
  have "\<bar>?s + x\<bar> \<le> ?S + x + \<bar>?s - ?S\<bar>" using S x by linarith
  then have a: "\<bar>?s + x\<bar> \<le> ?S + x + ?K * (?S + x + ?c)" using e1 by linarith
  have "\<bar>fl (?s + x) - (?s + x)\<bar> \<le> \<bar>?s + x\<bar> * ?u + ?c * ?u"
    using fl_error [of "?s + x"] by simp
  also have "\<dots> \<le> (?S + x + ?K * (?S + x + ?c)) * ?u + ?c * ?u"
    using a by (simp add: mult_right_mono)
  finally have r: "\<bar>fl (?s + x) - (?s + x)\<bar> \<le> (?S + x + ?K * (?S + x + ?c)) * ?u + ?c * ?u" .
  have "\<bar>fl (?s + x) - (?S + x)\<bar> \<le> \<bar>fl (?s + x) - (?s + x)\<bar> + \<bar>?s - ?S\<bar>" by linarith
  also have "\<dots> \<le> (?S + x + ?K * (?S + x + ?c)) * ?u + ?c * ?u + ?K * (?S + x + ?c)"
    using r e1 by linarith
  also have "\<dots> = ((1 + ?u) * (1 + ?u) ^ length xs - 1) * (?S + x + ?c)"
    by (simp add: algebra_simps)
  finally have fin: "\<bar>fl (?s + x) - (?S + x)\<bar> \<le> ((1 + ?u) * (1 + ?u) ^ length xs - 1) * (?S + x + ?c)" .
  have step: "foldl js_add 0 (xs @ [x]) = fl (?s + x)" by (simp add: js_add_def)
  show ?case unfolding step using fin by simp
qed

section \<open>Properties of the pace converter\<close>

text \<open>
  Claim C2 (pace converter), as the code has it. \<open>paceMinutesPerUnit\<close> returns the
  undefined sentinel exactly when the distance is at most zero. For a positive distance
  and a time that is not negative it returns a number that is not negative, and that
  number is strictly positive exactly when the time is.
\<close>

theorem paceMinutesPerUnit_result:
  "(paceMinutesPerUnit meters seconds u = None \<longleftrightarrow> meters \<le> 0)
   \<and> (0 < meters \<longrightarrow> 0 \<le> seconds \<longrightarrow>
        (\<exists>pace. paceMinutesPerUnit meters seconds u = Some pace \<and> 0 \<le> pace
                \<and> (0 < pace \<longleftrightarrow> 0 < seconds)))"
  by (simp add: paceMinutesPerUnit_def Let_def zero_less_divide_iff)

theorem paceMinutesPerUnit_result_witness:
  "(0::real) < 1000 \<and> (0::real) \<le> 300
   \<and> (\<exists>pace. paceMinutesPerUnit 1000 300 ''km'' = Some pace \<and> 0 < pace)"
  using paceMinutesPerUnit_result [of 1000 300 "''km''"] by auto

text \<open>
  The spec's "strictly positive" fails for a lap of positive distance and no moving
  time: the pace is zero.
\<close>

theorem paceMinutesPerUnit_zero_counterexample:
  "(0::real) < 1000 \<and> (0::real) \<le> 0 \<and> paceMinutesPerUnit 1000 0 ''km'' = Some 0"
  by (simp add: paceMinutesPerUnit_def)

section \<open>Properties of the merger\<close>

subsection \<open>The sums of the merged output\<close>

lemma foldl_js_add_map: "foldl (\<lambda>sum l. js_add sum (f l)) a xs = foldl js_add a (map f xs)"
  by (induction xs arbitrary: a) simp_all

lemma distance_mergedSegment: "distance (mergedSegment g) = foldl js_add 0 (map distance g)"
  by (simp add: mergedSegment_def Let_def) (rule foldl_js_add_map)

lemma moving_time_mergedSegment: "moving_time (mergedSegment g) = foldl js_add 0 (map moving_time g)"
  by (simp add: mergedSegment_def Let_def) (rule foldl_js_add_map)

lemma snd_flushGroup: "snd (flushGroup st) = []"
  by (cases st rule: flushGroup.cases) simp_all

lemma sum_list_Nats_nonneg: "\<forall>x\<in>set xs. f x \<in> \<nat> \<Longrightarrow> 0 \<le> sum_list (map f xs)"
  for f :: "'a \<Rightarrow> real"
  by (induction xs) (auto elim: Nats_cases)

text \<open>
  Whole numbers. \<open>f\<close> stands for \<open>distance\<close> or \<open>moving_time\<close>: a field of which the
  merged segment carries the double sum.
\<close>

lemma flushGroup_sum_exact:
  assumes seg: "\<And>grp. f (mergedSegment grp) = foldl js_add 0 (map f grp)"
    and nat: "\<forall>l\<in>set g. f l \<in> \<nat>" and small: "sum_list (map f g) < 2 ^ 53"
  shows "sum_list (map f (fst (flushGroup (m, g)))) = sum_list (map f m) + sum_list (map f g)"
proof (cases "(m, g)" rule: flushGroup.cases)
  case (3 out a b grp)
  have "foldl js_add 0 (map f g) = 0 + sum_list (map f g)"
    using nat small by (intro foldl_js_add_exact) auto
  then show ?thesis using 3 seg [of g] by simp
qed simp_all

lemma fold_mergeStep_sum_exact:
  assumes seg: "\<And>grp. f (mergedSegment grp) = foldl js_add 0 (map f grp)"
  shows "\<forall>l\<in>set g \<union> set laps. f l \<in> \<nat>
         \<Longrightarrow> sum_list (map f g) + sum_list (map f laps) < 2 ^ 53
         \<Longrightarrow> sum_list (map f (fst (flushGroup (fold (mergeStep pr u) laps (m, g)))))
               = sum_list (map f m) + sum_list (map f g) + sum_list (map f laps)"
proof (induction laps arbitrary: m g)
  case Nil
  then show ?case using flushGroup_sum_exact [OF seg, of g m] by simp
next
  case (Cons l laps)
  have l: "0 \<le> f l" using Cons.prems(1) by (auto elim: Nats_cases)
  have g: "0 \<le> sum_list (map f g)" and r: "0 \<le> sum_list (map f laps)"
    using Cons.prems(1) by (auto intro: sum_list_Nats_nonneg)
  show ?case
  proof (cases "qualifies pr u l")
    case True
    then show ?thesis
      using Cons.IH [of "g @ [l]" m] Cons.prems by (simp add: mergeStep_def)
  next
    case False
    have "sum_list (map f (fst (flushGroup (m, g)))) = sum_list (map f m) + sum_list (map f g)"
      using Cons.prems l r by (intro flushGroup_sum_exact [OF seg]) auto
    then show ?thesis
      using False Cons.IH [of "[]" "fst (flushGroup (m, g)) @ [l]"] Cons.prems l g
      by (simp add: mergeStep_def snd_flushGroup)
  qed
qed

text \<open>
  Any values that are not negative. \<open>N\<close> bounds the number of laps of a group.
\<close>

lemma flushGroup_sum_error:
  assumes seg: "\<And>grp. f (mergedSegment grp) = foldl js_add 0 (map f grp)"
    and nn: "\<forall>l\<in>set g. 0 \<le> f l" and len: "length g \<le> N"
  shows "\<bar>sum_list (map f (fst (flushGroup (m, g)))) - (sum_list (map f m) + sum_list (map f g))\<bar>
           \<le> ((1 + 1 / 2 ^ 53) ^ N - 1) * (sum_list (map f g) + real (length g) * pow2 (- 1022))"
proof (cases "(m, g)" rule: flushGroup.cases)
  case (1 out)
  then show ?thesis by simp
next
  case (2 out x)
  have "0 \<le> ((1 + 1 / 2 ^ 53) ^ N - 1) * (f x + pow2 (- 1022))"
    using nn 2 pow2_pos [of "- 1022"] by (intro mult_nonneg_nonneg) simp_all
  then show ?thesis using 2 by simp
next
  case (3 out a b grp)
  let ?S = "sum_list (map f g)"
  have S: "0 \<le> ?S" using nn by (intro sum_list_nonneg) auto
  have c: "0 < pow2 (- 1022)" by (rule pow2_pos)
  have e: "\<bar>foldl js_add 0 (map f g) - ?S\<bar> \<le> ((1 + 1 / 2 ^ 53) ^ length g - 1) * (?S + pow2 (- 1022))"
    using foldl_js_add_error [of "map f g"] nn by simp
  have k: "(1 + 1 / 2 ^ 53) ^ length g - 1 \<le> ((1 + 1 / 2 ^ 53) ^ N - 1 :: real)"
    using len by (simp add: power_increasing)
  have "1 \<le> real (length g)" using 3 by simp
  then have "pow2 (- 1022) \<le> real (length g) * pow2 (- 1022)"
    using c by simp
  then have s: "?S + pow2 (- 1022) \<le> ?S + real (length g) * pow2 (- 1022)" by simp
  have "((1 + 1 / 2 ^ 53) ^ length g - 1) * (?S + pow2 (- 1022))
          \<le> ((1 + 1 / 2 ^ 53) ^ N - 1) * (?S + real (length g) * pow2 (- 1022))"
    using k s S c by (intro mult_mono) simp_all
  then have "\<bar>foldl js_add 0 (map f g) - ?S\<bar>
          \<le> ((1 + 1 / 2 ^ 53) ^ N - 1) * (?S + real (length g) * pow2 (- 1022))"
    using e by linarith
  then show ?thesis using 3 seg [of g] by simp
qed

lemma fold_mergeStep_sum_error:
  assumes seg: "\<And>grp. f (mergedSegment grp) = foldl js_add 0 (map f grp)"
  shows "\<forall>l\<in>set g \<union> set laps. 0 \<le> f l
         \<Longrightarrow> length g + length laps \<le> N
         \<Longrightarrow> \<bar>sum_list (map f (fst (flushGroup (fold (mergeStep pr u) laps (m, g)))))
               - (sum_list (map f m) + sum_list (map f g) + sum_list (map f laps))\<bar>
             \<le> ((1 + 1 / 2 ^ 53) ^ N - 1)
                 * (sum_list (map f g) + sum_list (map f laps)
                      + real (length g + length laps) * pow2 (- 1022))"
proof (induction laps arbitrary: m g)
  case Nil
  then show ?case using flushGroup_sum_error [OF seg, of g N m] by simp
next
  case (Cons l laps)
  let ?K = "(1 + 1 / 2 ^ 53) ^ N - 1 :: real"
  let ?c = "pow2 (- 1022)"
  have K: "0 \<le> ?K" by simp
  have c: "0 < ?c" by (rule pow2_pos)
  have l: "0 \<le> f l" using Cons.prems(1) by simp
  show ?case
  proof (cases "qualifies pr u l")
    case True
    then show ?thesis
      using Cons.IH [of "g @ [l]" m] Cons.prems by (simp add: mergeStep_def algebra_simps)
  next
    case False
    let ?m' = "fst (flushGroup (m, g))"
    let ?out = "fst (flushGroup (fold (mergeStep pr u) laps (?m' @ [l], [])))"
    have a: "\<bar>sum_list (map f ?m') - (sum_list (map f m) + sum_list (map f g))\<bar>
               \<le> ?K * (sum_list (map f g) + real (length g) * ?c)"
      using Cons.prems by (intro flushGroup_sum_error [OF seg]) auto
    have b: "\<bar>sum_list (map f ?out) - (sum_list (map f ?m') + f l + sum_list (map f laps))\<bar>
               \<le> ?K * (sum_list (map f laps) + real (length laps) * ?c)"
      using Cons.IH [of "[]" "?m' @ [l]"] Cons.prems by simp
    have "?K * (sum_list (map f g) + real (length g) * ?c)
            + ?K * (sum_list (map f laps) + real (length laps) * ?c)
          = ?K * (sum_list (map f g) + sum_list (map f laps) + real (length g + length laps) * ?c)"
      by (simp add: algebra_simps)
    also have "\<dots> \<le> ?K * (sum_list (map f g) + (f l + sum_list (map f laps))
                           + real (length g + length (l # laps)) * ?c)"
      using K l c by (intro mult_left_mono) (simp_all add: algebra_simps)
    finally have "\<bar>sum_list (map f ?out) - (sum_list (map f m) + sum_list (map f g) + (f l + sum_list (map f laps)))\<bar>
                    \<le> ?K * (sum_list (map f g) + (f l + sum_list (map f laps))
                               + real (length g + length (l # laps)) * ?c)"
      using a b by linarith
    moreover have "fold (mergeStep pr u) (l # laps) (m, g) = fold (mergeStep pr u) laps (?m' @ [l], [])"
      using False by (simp add: mergeStep_def snd_flushGroup)
    ultimately show ?thesis by (simp only: list.map sum_list.Cons)
  qed
qed

text \<open>
  Claim C5 (merge conservation), as the code has it. A merged segment carries the sums
  of its laps as the source adds them, double by double, so each sum is rounded. When
  the distances of the laps are whole numbers that add up to less than \<open>2\<^sup>5\<^sup>3\<close>, no
  addition rounds and the distances of the segments returned by \<open>mergeLapsByPace\<close> add
  up to the distances of the laps given; likewise for the moving times. For any
  distances that are not negative and add up to less than \<open>2\<^sup>1\<^sup>0\<^sup>2\<^sup>3\<close> (so that no sum of
  the source overflows) the two sums differ by at most the rounding of the additions:
  with \<open>n\<close> laps, the fraction \<open>(1 + 2\<^sup>-\<^sup>5\<^sup>3)\<^sup>n - 1\<close> of the sum of the laps, to which
  \<open>n\<close> times \<open>2\<^sup>-\<^sup>1\<^sup>0\<^sup>2\<^sup>2\<close> is added for the sums below the normal range of the doubles;
  likewise for the moving times. The sums compared are the exact sums of the values.
\<close>

theorem mergeLapsByPace_conservation:
  "((\<forall>l\<in>set laps. distance l \<in> \<nat>) \<and> sum_list (map distance laps) < 2 ^ 53
      \<longrightarrow> sum_list (map distance (mergeLapsByPace laps pr u)) = sum_list (map distance laps))
   \<and> ((\<forall>l\<in>set laps. moving_time l \<in> \<nat>) \<and> sum_list (map moving_time laps) < 2 ^ 53
      \<longrightarrow> sum_list (map moving_time (mergeLapsByPace laps pr u)) = sum_list (map moving_time laps))
   \<and> ((\<forall>l\<in>set laps. 0 \<le> distance l) \<and> sum_list (map distance laps) < 2 ^ 1023
      \<longrightarrow> \<bar>sum_list (map distance (mergeLapsByPace laps pr u)) - sum_list (map distance laps)\<bar>
            \<le> ((1 + 1 / 2 ^ 53) ^ length laps - 1)
                * (sum_list (map distance laps) + real (length laps) * pow2 (- 1022)))
   \<and> ((\<forall>l\<in>set laps. 0 \<le> moving_time l) \<and> sum_list (map moving_time laps) < 2 ^ 1023
      \<longrightarrow> \<bar>sum_list (map moving_time (mergeLapsByPace laps pr u)) - sum_list (map moving_time laps)\<bar>
            \<le> ((1 + 1 / 2 ^ 53) ^ length laps - 1)
                * (sum_list (map moving_time laps) + real (length laps) * pow2 (- 1022)))"
proof (intro conjI impI)
  assume "(\<forall>l\<in>set laps. distance l \<in> \<nat>) \<and> sum_list (map distance laps) < 2 ^ 53"
  then show "sum_list (map distance (mergeLapsByPace laps pr u)) = sum_list (map distance laps)"
    using fold_mergeStep_sum_exact [of distance "[]" laps pr u "[]", OF distance_mergedSegment]
    by (simp add: mergeLapsByPace_def)
next
  assume "(\<forall>l\<in>set laps. moving_time l \<in> \<nat>) \<and> sum_list (map moving_time laps) < 2 ^ 53"
  then show "sum_list (map moving_time (mergeLapsByPace laps pr u)) = sum_list (map moving_time laps)"
    using fold_mergeStep_sum_exact [of moving_time "[]" laps pr u "[]", OF moving_time_mergedSegment]
    by (simp add: mergeLapsByPace_def)
next
  assume "(\<forall>l\<in>set laps. 0 \<le> distance l) \<and> sum_list (map distance laps) < 2 ^ 1023"
  then show "\<bar>sum_list (map distance (mergeLapsByPace laps pr u)) - sum_list (map distance laps)\<bar>
            \<le> ((1 + 1 / 2 ^ 53) ^ length laps - 1)
                * (sum_list (map distance laps) + real (length laps) * pow2 (- 1022))"
    using fold_mergeStep_sum_error [of distance "[]" laps "length laps" pr u "[]", OF distance_mergedSegment]
    by (simp add: mergeLapsByPace_def)
next
  assume "(\<forall>l\<in>set laps. 0 \<le> moving_time l) \<and> sum_list (map moving_time laps) < 2 ^ 1023"
  then show "\<bar>sum_list (map moving_time (mergeLapsByPace laps pr u)) - sum_list (map moving_time laps)\<bar>
            \<le> ((1 + 1 / 2 ^ 53) ^ length laps - 1)
                * (sum_list (map moving_time laps) + real (length laps) * pow2 (- 1022))"
    using fold_mergeStep_sum_error [of moving_time "[]" laps "length laps" pr u "[]", OF moving_time_mergedSegment]
    by (simp add: mergeLapsByPace_def)
qed

text \<open>
  The laps of \<open>roundingLaps\<close>: their distances are the doubles nearest to 200.1, 1000.4
  and 1000.3, and the last two laps qualify.
\<close>

lemma fl_doubles:
  "fl 200.1 = 7040392854975283 / 35184372088832"
  "fl 1000.4 = 8799611459416883 / 8796093022208"
  "fl 1000.3 = 4399365925057331 / 4398046511104"
  by (simp_all add: fl_def binade_def binadeUp.simps pow2_def roundEven_def Let_def)

lemma js_add_doubles:
  "js_add 0 (8799611459416883 / 8796093022208) = 8799611459416883 / 8796093022208"
  "js_add (8799611459416883 / 8796093022208) (4399365925057331 / 4398046511104)
     = 2199792913691443 / 1099511627776"
  "js_add 0 (7040392854975283 / 35184372088832) = 7040392854975283 / 35184372088832"
  "js_add (7040392854975283 / 35184372088832) (8799611459416883 / 8796093022208)
     = 2401 / 2"
  "js_add (2401 / 2) (4399365925057331 / 4398046511104) = 2419805190409421 / 1099511627776"
  "js_add (7040392854975283 / 35184372088832) (2199792913691443 / 1099511627776)
     = 4839610380818841 / 2199023255552"
  by (simp_all add: js_add_def fl_def binade_def binadeUp.simps pow2_def roundEven_def Let_def)

lemma roundingLaps_eq:
  "roundingLaps =
     [\<lparr>lap_index = 1, lap_name = ''Lap 1'', distance = 7040392854975283 / 35184372088832,
        moving_time = 120, merged = False\<rparr>,
      \<lparr>lap_index = 2, lap_name = ''Lap 2'', distance = 8799611459416883 / 8796093022208,
        moving_time = 300, merged = False\<rparr>,
      \<lparr>lap_index = 3, lap_name = ''Lap 3'', distance = 4399365925057331 / 4398046511104,
        moving_time = 300, merged = False\<rparr>]"
  by (simp only: roundingLaps_def fl_doubles)

lemma roundingLaps_merged:
  "mergeLapsByPace roundingLaps \<lparr>fastest = 4, slowest = 6\<rparr> ''km''
   = [\<lparr>lap_index = 1, lap_name = ''Lap 1'', distance = 7040392854975283 / 35184372088832,
        moving_time = 120, merged = False\<rparr>,
      \<lparr>lap_index = 2, lap_name = ''Merged laps 2-3'', distance = 2199792913691443 / 1099511627776,
        moving_time = 600, merged = True\<rparr>]"
  by (simp add: roundingLaps_eq mergeLapsByPace_def mergeStep_def qualifies_def
        paceMinutesPerUnit_def mergedSegment_def show_int_def show_nat.simps digit_char_def
        js_add_zero_numeral js_add_numeral js_add_doubles)

lemma wholeLaps_merged:
  "mergeLapsByPace [exampleLap 1 1000 300, exampleLap 2 1000 330, exampleLap 3 500 600]
     \<lparr>fastest = 4, slowest = 6\<rparr> ''km''
   = [\<lparr>lap_index = 1, lap_name = ''Merged laps 1-2'', distance = 2000, moving_time = 630, merged = True\<rparr>,
      exampleLap 3 500 600]"
  by (simp add: mergeLapsByPace_def mergeStep_def qualifies_def paceMinutesPerUnit_def exampleLap_def
        mergedSegment_def show_int_def show_nat.simps digit_char_def js_add_zero_numeral js_add_numeral)

theorem mergeLapsByPace_conservation_witness:
  "mergeLapsByPace [exampleLap 1 1000 300, exampleLap 2 1000 330, exampleLap 3 500 600]
       \<lparr>fastest = 4, slowest = 6\<rparr> ''km''
     = [\<lparr>lap_index = 1, lap_name = ''Merged laps 1-2'', distance = 2000, moving_time = 630, merged = True\<rparr>,
        exampleLap 3 500 600]
   \<and> sum_list (map distance (mergeLapsByPace
         [exampleLap 1 1000 300, exampleLap 2 1000 330, exampleLap 3 500 600]
         \<lparr>fastest = 4, slowest = 6\<rparr> ''km'')) = 2500
   \<and> sum_list (map moving_time (mergeLapsByPace
         [exampleLap 1 1000 300, exampleLap 2 1000 330, exampleLap 3 500 600]
         \<lparr>fastest = 4, slowest = 6\<rparr> ''km'')) = 1230
   \<and> \<bar>sum_list (map distance (mergeLapsByPace roundingLaps \<lparr>fastest = 4, slowest = 6\<rparr> ''km''))
        - sum_list (map distance roundingLaps)\<bar>
       \<le> ((1 + 1 / 2 ^ 53) ^ length roundingLaps - 1)
           * (sum_list (map distance roundingLaps) + real (length roundingLaps) * pow2 (- 1022))
   \<and> sum_list (map moving_time (mergeLapsByPace roundingLaps \<lparr>fastest = 4, slowest = 6\<rparr> ''km''))
       = sum_list (map moving_time roundingLaps)
   \<and> \<bar>sum_list (map moving_time (mergeLapsByPace roundingLaps \<lparr>fastest = 4, slowest = 6\<rparr> ''km''))
        - sum_list (map moving_time roundingLaps)\<bar>
       \<le> ((1 + 1 / 2 ^ 53) ^ length roundingLaps - 1)
           * (sum_list (map moving_time roundingLaps) + real (length roundingLaps) * pow2 (- 1022))"
proof -
  let ?whole = "[exampleLap 1 1000 300, exampleLap 2 1000 330, exampleLap 3 500 600]"
  have a: "\<forall>l\<in>set ?whole. distance l \<in> \<nat>" "\<forall>l\<in>set ?whole. moving_time l \<in> \<nat>"
    "sum_list (map distance ?whole) < 2 ^ 53" "sum_list (map moving_time ?whole) < 2 ^ 53"
    "sum_list (map distance ?whole) = 2500" "sum_list (map moving_time ?whole) = 1230"
    by (simp_all add: exampleLap_def)
  have b: "\<forall>l\<in>set roundingLaps. 0 \<le> distance l" "sum_list (map distance roundingLaps) < 2 ^ 1023"
    "\<forall>l\<in>set roundingLaps. moving_time l \<in> \<nat>" "sum_list (map moving_time roundingLaps) < 2 ^ 53"
    "\<forall>l\<in>set roundingLaps. 0 \<le> moving_time l" "sum_list (map moving_time roundingLaps) < 2 ^ 1023"
    by (simp_all add: roundingLaps_eq)
  note whole = mergeLapsByPace_conservation [of ?whole "\<lparr>fastest = 4, slowest = 6\<rparr>" "''km''"]
  note rounding = mergeLapsByPace_conservation [of roundingLaps "\<lparr>fastest = 4, slowest = 6\<rparr>" "''km''"]
  have w1: "sum_list (map distance (mergeLapsByPace ?whole \<lparr>fastest = 4, slowest = 6\<rparr> ''km'')) = 2500"
    using whole a by simp
  have w2: "sum_list (map moving_time (mergeLapsByPace ?whole \<lparr>fastest = 4, slowest = 6\<rparr> ''km'')) = 1230"
    using whole a by simp
  have r1: "\<bar>sum_list (map distance (mergeLapsByPace roundingLaps \<lparr>fastest = 4, slowest = 6\<rparr> ''km''))
              - sum_list (map distance roundingLaps)\<bar>
            \<le> ((1 + 1 / 2 ^ 53) ^ length roundingLaps - 1)
                * (sum_list (map distance roundingLaps) + real (length roundingLaps) * pow2 (- 1022))"
    using rounding b by blast
  have r2: "sum_list (map moving_time (mergeLapsByPace roundingLaps \<lparr>fastest = 4, slowest = 6\<rparr> ''km''))
              = sum_list (map moving_time roundingLaps)"
    using rounding b by blast
  have r3: "\<bar>sum_list (map moving_time (mergeLapsByPace roundingLaps \<lparr>fastest = 4, slowest = 6\<rparr> ''km''))
              - sum_list (map moving_time roundingLaps)\<bar>
            \<le> ((1 + 1 / 2 ^ 53) ^ length roundingLaps - 1)
                * (sum_list (map moving_time roundingLaps) + real (length roundingLaps) * pow2 (- 1022))"
    using rounding b by blast
  show ?thesis
    using wholeLaps_merged w1 w2 r1 r2 r3 by blast
qed

text \<open>
  The spec has the distances of the output add up to the distances of the input for
  any lap sequence. On \<open>roundingLaps\<close> the merged segment of laps 2 and 3 carries the
  double 2000.6999999999998, which is \<open>2\<^sup>-\<^sup>4\<^sup>3\<close> below the sum of the two distances. The
  sums of the output and of the input differ, whether they are added exactly or as
  doubles from the left (2200.7999999999997 against 2200.8).
\<close>

theorem mergeLapsByPace_rounding_counterexample:
  "mergeLapsByPace roundingLaps \<lparr>fastest = 4, slowest = 6\<rparr> ''km''
   = [\<lparr>lap_index = 1, lap_name = ''Lap 1'', distance = 7040392854975283 / 35184372088832,
        moving_time = 120, merged = False\<rparr>,
      \<lparr>lap_index = 2, lap_name = ''Merged laps 2-3'', distance = 2199792913691443 / 1099511627776,
        moving_time = 600, merged = True\<rparr>]
   \<and> sum_list (map distance (mergeLapsByPace roundingLaps \<lparr>fastest = 4, slowest = 6\<rparr> ''km''))
       = 77433766093101459 / 35184372088832
   \<and> sum_list (map distance roundingLaps) = 77433766093101463 / 35184372088832
   \<and> sum_list (map distance (mergeLapsByPace roundingLaps \<lparr>fastest = 4, slowest = 6\<rparr> ''km''))
       \<noteq> sum_list (map distance roundingLaps)
   \<and> foldl js_add 0 (map distance (mergeLapsByPace roundingLaps \<lparr>fastest = 4, slowest = 6\<rparr> ''km''))
       = 4839610380818841 / 2199023255552
   \<and> foldl js_add 0 (map distance roundingLaps) = 2419805190409421 / 1099511627776
   \<and> foldl js_add 0 (map distance (mergeLapsByPace roundingLaps \<lparr>fastest = 4, slowest = 6\<rparr> ''km''))
       \<noteq> foldl js_add 0 (map distance roundingLaps)"
  by (simp add: roundingLaps_merged js_add_doubles) (simp add: roundingLaps_eq js_add_doubles)

subsection \<open>Re-running the merger on its own output\<close>

lemma no_adjacent_snoc:
  "no_adjacent q (xs @ [z]) = (no_adjacent q xs \<and> (xs = [] \<or> \<not> (q (last xs) \<and> q z)))"
  by (induction q xs rule: no_adjacent.induct) auto

lemma fst_flushGroup_short: "length g \<le> 1 \<Longrightarrow> fst (flushGroup (m, g)) = m @ g"
  by (cases "(m, g)" rule: flushGroup.cases) simp_all

lemma fst_flushGroup_cases:
  "fst (flushGroup (m, g)) = m \<or> (\<exists>z. fst (flushGroup (m, g)) = m @ [z])"
  by (cases "(m, g)" rule: flushGroup.cases) simp_all

text \<open>On a list with no two qualifying neighbours every pending group has one lap.\<close>

lemma merge_loop_isolated:
  "no_adjacent (qualifies pr u) xs \<Longrightarrow> length g \<le> 1
   \<Longrightarrow> (g \<noteq> [] \<Longrightarrow> xs \<noteq> [] \<Longrightarrow> \<not> qualifies pr u (hd xs))
   \<Longrightarrow> fst (flushGroup (fold (mergeStep pr u) xs (m, g))) = m @ g @ xs"
proof (induction xs arbitrary: m g)
  case Nil
  then show ?case by (simp add: fst_flushGroup_short)
next
  case (Cons y ys)
  have tl: "no_adjacent (qualifies pr u) ys"
    using Cons.prems(1) by (cases ys) auto
  show ?case
  proof (cases "qualifies pr u y")
    case True
    then have g: "g = []" using Cons.prems(3) by auto
    have nxt: "ys \<noteq> [] \<Longrightarrow> \<not> qualifies pr u (hd ys)"
      using Cons.prems(1) True by (cases ys) auto
    show ?thesis
      using Cons.IH [of "[y]" m] tl nxt True by (simp add: mergeStep_def g)
  next
    case False
    show ?thesis
      using Cons.IH [of "[]" "m @ g @ [y]"] tl False Cons.prems(2)
      by (simp add: mergeStep_def snd_flushGroup fst_flushGroup_short)
  qed
qed

text \<open>The loop keeps its output free of qualifying neighbours, and ending in a lap that does not qualify.\<close>

lemma merge_loop_invariant:
  "no_adjacent q m \<Longrightarrow> (m = [] \<or> \<not> q (last m)) \<Longrightarrow> q = qualifies pr u
   \<Longrightarrow> no_adjacent q (fst (fold (mergeStep pr u) xs (m, g)))
       \<and> (fst (fold (mergeStep pr u) xs (m, g)) = [] \<or> \<not> q (last (fst (fold (mergeStep pr u) xs (m, g)))))"
proof (induction xs arbitrary: m g)
  case Nil
  then show ?case by simp
next
  case (Cons y ys)
  show ?case
  proof (cases "qualifies pr u y")
    case True
    then show ?thesis
      using Cons.IH [of m "g @ [y]"] Cons.prems by (simp add: mergeStep_def)
  next
    case False
    have a: "no_adjacent q (fst (flushGroup (m, g)) @ [y])"
      using fst_flushGroup_cases [of m g] Cons.prems False
      by (auto simp: no_adjacent_snoc)
    have b: "\<not> q (last (fst (flushGroup (m, g)) @ [y]))"
      using False Cons.prems(3) by simp
    show ?thesis
      using Cons.IH [of "fst (flushGroup (m, g)) @ [y]" "[]"] a b Cons.prems(3) False
      by (simp add: mergeStep_def snd_flushGroup)
  qed
qed

lemma mergeLapsByPace_no_adjacent:
  "no_adjacent (qualifies pr u) (mergeLapsByPace laps pr u)"
proof -
  let ?st = "fold (mergeStep pr u) laps ([], [])"
  have inv: "no_adjacent (qualifies pr u) (fst ?st)
             \<and> (fst ?st = [] \<or> \<not> qualifies pr u (last (fst ?st)))"
    using merge_loop_invariant [of "qualifies pr u" "[]" pr u laps "[]"] by simp
  have "fst (flushGroup (fst ?st, snd ?st)) = fst ?st
        \<or> (\<exists>z. fst (flushGroup (fst ?st, snd ?st)) = fst ?st @ [z])"
    by (rule fst_flushGroup_cases)
  then show ?thesis
    using inv by (auto simp: mergeLapsByPace_def no_adjacent_snoc)
qed

text \<open>
  Claim C1 (classification idempotence). For every lap sequence, pace range and unit,
  \<open>mergeLapsByPace\<close> run on its own output, with the same pace range and unit, returns
  that output unchanged: the segments and their boundaries stay as the first pass set
  them. The claim asks this for \<open>0 < fastest \<le> slowest\<close>; it holds for every range.
\<close>

theorem mergeLapsByPace_idempotent:
  "mergeLapsByPace (mergeLapsByPace laps pr u) pr u = mergeLapsByPace laps pr u"
proof -
  have "fst (flushGroup (fold (mergeStep pr u) (mergeLapsByPace laps pr u) ([], [])))
          = [] @ [] @ mergeLapsByPace laps pr u"
    by (rule merge_loop_isolated) (simp_all add: mergeLapsByPace_no_adjacent)
  then show ?thesis
    by (simp add: mergeLapsByPace_def)
qed

lemma snd_flushLaps: "snd (flushLaps st) = []"
  by (cases st rule: flushLaps.cases) simp_all

lemma concat_flushLaps: "concat (fst (flushLaps (out, g))) = concat out @ g"
  by (cases "(out, g)" rule: flushLaps.cases) simp_all

lemma flushGroup_flushLaps:
  "fst (flushGroup (map segmentOf out, g)) = map segmentOf (fst (flushLaps (out, g)))"
  by (cases "(map segmentOf out, g)" rule: flushGroup.cases) simp_all

lemma fold_groupStep_concat:
  "concat (fst (fold (groupStep pr u) laps (out, g))) @ snd (fold (groupStep pr u) laps (out, g))
     = concat out @ g @ laps"
proof (induction laps arbitrary: out g)
  case Nil
  show ?case by simp
next
  case (Cons l laps)
  show ?case
  proof (cases "qualifies pr u l")
    case True
    then show ?thesis
      using Cons.IH [of out "g @ [l]"] by (simp add: groupStep_def)
  next
    case False
    then show ?thesis
      using Cons.IH [of "fst (flushLaps (out, g)) @ [[l]]" "[]"]
      by (simp add: groupStep_def snd_flushLaps concat_flushLaps)
  qed
qed

lemma fold_mergeStep_groupStep:
  "fold (mergeStep pr u) laps (map segmentOf out, g)
     = (map segmentOf (fst (fold (groupStep pr u) laps (out, g))),
        snd (fold (groupStep pr u) laps (out, g)))"
proof (induction laps arbitrary: out g)
  case Nil
  show ?case by simp
next
  case (Cons l laps)
  show ?case
  proof (cases "qualifies pr u l")
    case True
    then show ?thesis
      using Cons.IH [of out "g @ [l]"] by (simp add: groupStep_def mergeStep_def)
  next
    case False
    then show ?thesis
      using Cons.IH [of "fst (flushLaps (out, g)) @ [[l]]" "[]"]
      by (simp add: groupStep_def mergeStep_def snd_flushLaps snd_flushGroup flushGroup_flushLaps)
  qed
qed

lemma concat_lapGroups: "concat (lapGroups laps pr u) = laps"
proof -
  obtain out g where st: "fold (groupStep pr u) laps ([], []) = (out, g)"
    by (cases "fold (groupStep pr u) laps ([], [])")
  have "concat out @ g = laps"
    using fold_groupStep_concat [of pr u laps "[]" "[]"] by (simp add: st)
  then show ?thesis
    by (simp add: lapGroups_def st concat_flushLaps)
qed

lemma mergeLapsByPace_lapGroups:
  "mergeLapsByPace laps pr u = map segmentOf (lapGroups laps pr u)"
proof -
  obtain out g where st: "fold (groupStep pr u) laps ([], []) = (out, g)"
    by (cases "fold (groupStep pr u) laps ([], [])")
  have "fold (mergeStep pr u) laps ([], []) = (map segmentOf out, g)"
    using fold_mergeStep_groupStep [of pr u laps "[]" "[]"] by (simp add: st)
  then show ?thesis
    by (simp add: mergeLapsByPace_def lapGroups_def st flushGroup_flushLaps)
qed

lemma fold_groupStep_all_qualify:
  "\<forall>l \<in> set laps. qualifies pr u l
   \<Longrightarrow> fold (groupStep pr u) laps (out, g) = (out, g @ laps)"
  by (induction laps arbitrary: g) (simp_all add: groupStep_def)

lemma lapGroups_all_qualify:
  "laps \<noteq> [] \<Longrightarrow> \<forall>l \<in> set laps. qualifies pr u l \<Longrightarrow> lapGroups laps pr u = [laps]"
proof -
  assume ne: "laps \<noteq> []" and q: "\<forall>l \<in> set laps. qualifies pr u l"
  have "fold (groupStep pr u) laps ([], []) = ([], [] @ laps)"
    using q by (rule fold_groupStep_all_qualify)
  then show ?thesis
    using ne by (cases laps) (simp_all add: lapGroups_def)
qed

lemma merged_segmentOf: "2 \<le> length g \<Longrightarrow> merged (segmentOf g) \<and> segmentOf g = mergedSegment g"
  by (cases g rule: segmentOf.cases) (simp_all add: mergedSegment_def)

text \<open>
  Claim C3 (edge cases of the merger), as the code has it. For the empty lap sequence
  the output is empty. For every non-empty sequence in which every lap qualifies the
  output is a single segment: the collapsed segment, carrying the merged flag, when the
  sequence has two laps or more, and the lap itself, unchanged, when it has one. The
  groups behind the output segments, concatenated in order, are the input, so no lap
  contributes to two groups.
\<close>

theorem mergeLapsByPace_edge_cases:
  "mergeLapsByPace [] pr u = []
   \<and> (laps \<noteq> [] \<longrightarrow> (\<forall>l \<in> set laps. qualifies pr u l) \<longrightarrow>
        lapGroups laps pr u = [laps]
        \<and> mergeLapsByPace laps pr u = [if length laps = 1 then hd laps else mergedSegment laps]
        \<and> (2 \<le> length laps \<longrightarrow> merged (hd (mergeLapsByPace laps pr u))))
   \<and> concat (lapGroups laps pr u) = laps
   \<and> mergeLapsByPace laps pr u = map segmentOf (lapGroups laps pr u)"
proof -
  have empty: "mergeLapsByPace [] pr u = []"
    by (simp add: mergeLapsByPace_def)
  have allq: "lapGroups laps pr u = [laps]
     \<and> mergeLapsByPace laps pr u = [if length laps = 1 then hd laps else mergedSegment laps]
     \<and> (2 \<le> length laps \<longrightarrow> merged (hd (mergeLapsByPace laps pr u)))"
    if ne: "laps \<noteq> []" and q: "\<forall>l \<in> set laps. qualifies pr u l"
  proof -
    have g: "lapGroups laps pr u = [laps]"
      using ne q by (rule lapGroups_all_qualify)
    have m: "mergeLapsByPace laps pr u = [segmentOf laps]"
      by (simp add: mergeLapsByPace_lapGroups g)
    have one: "length laps = 1 \<Longrightarrow> segmentOf laps = hd laps"
      by (cases laps rule: segmentOf.cases) simp_all
    have more: "length laps \<noteq> 1 \<Longrightarrow> segmentOf laps = mergedSegment laps"
      by (cases laps rule: segmentOf.cases) simp_all
    show ?thesis
      using g m one more merged_segmentOf [of laps] by auto
  qed
  have part: "concat (lapGroups laps pr u) = laps
     \<and> mergeLapsByPace laps pr u = map segmentOf (lapGroups laps pr u)"
    by (simp add: concat_lapGroups mergeLapsByPace_lapGroups)
  show ?thesis
    using empty allq part by blast
qed

theorem mergeLapsByPace_edge_cases_witness:
  "mergeLapsByPace
     [\<lparr>lap_index = 1, lap_name = ''Lap 1'', distance = 1000, moving_time = 300, merged = False\<rparr>,
      \<lparr>lap_index = 2, lap_name = ''Lap 2'', distance = 1000, moving_time = 330, merged = False\<rparr>]
     \<lparr>fastest = 4, slowest = 6\<rparr> ''km''
   = [\<lparr>lap_index = 1, lap_name = ''Merged laps 1-2'', distance = 2000, moving_time = 630, merged = True\<rparr>]"
  using mergeLapsByPace_edge_cases [of
     "\<lparr>fastest = 4, slowest = 6\<rparr>" "''km''"
     "[\<lparr>lap_index = 1, lap_name = ''Lap 1'', distance = 1000, moving_time = 300, merged = False\<rparr>,
      \<lparr>lap_index = 2, lap_name = ''Lap 2'', distance = 1000, moving_time = 330, merged = False\<rparr>]"]
  by (auto simp add: qualifies_def paceMinutesPerUnit_def mergedSegment_def show_int_def
        show_nat.simps digit_char_def js_add_zero_numeral js_add_numeral)

text \<open>
  The spec asks for the merged flag on the single segment of every non-empty
  all-qualifying input. One lap that qualifies (5 min/km within 4 to 6) comes
  back as it was, without the flag: the source pushes a group of one lap unchanged.
\<close>

theorem mergeLapsByPace_single_counterexample:
  "qualifies \<lparr>fastest = 4, slowest = 6\<rparr> ''km''
       \<lparr>lap_index = 1, lap_name = ''Lap 1'', distance = 1000, moving_time = 300, merged = False\<rparr>
   \<and> mergeLapsByPace
       [\<lparr>lap_index = 1, lap_name = ''Lap 1'', distance = 1000, moving_time = 300, merged = False\<rparr>]
       \<lparr>fastest = 4, slowest = 6\<rparr> ''km''
     = [\<lparr>lap_index = 1, lap_name = ''Lap 1'', distance = 1000, moving_time = 300, merged = False\<rparr>]
   \<and> \<not> merged \<lparr>lap_index = 1, lap_name = ''Lap 1'', distance = 1000, moving_time = 300, merged = False\<rparr>"
  by (simp add: mergeLapsByPace_def mergeStep_def qualifies_def paceMinutesPerUnit_def)

text \<open>
  Scenario A of the spec: the first two laps merge into one qualifying segment, the
  third lap does not qualify.
\<close>

lemma scenario_A_segments:
  "mergeLapsByPace [exampleLap 1 400 90, exampleLap 2 400 91, exampleLap 3 400 500]
     \<lparr>fastest = 5.5, slowest = 7.5\<rparr> ''mi''
   = [\<lparr>lap_index = 1, lap_name = ''Merged laps 1-2'', distance = 800, moving_time = 181, merged = True\<rparr>,
      exampleLap 3 400 500]"
  by (simp add: mergeLapsByPace_def mergeStep_def qualifies_def paceMinutesPerUnit_def exampleLap_def
        mergedSegment_def show_int_def show_nat.simps digit_char_def js_add_zero_numeral js_add_numeral)

section \<open>Properties of the median\<close>

lemma length_filter_insort:
  "length (filter P (insort_key f x xs)) = length (filter P (x # xs))"
  by (induction xs) auto

lemma length_filter_sort: "length (filter P (sort_key f xs)) = length (filter P xs)"
  by (induction xs) (simp_all add: length_filter_insort)

lemma sorted_split_counts:
  assumes s: "sorted (A @ v # B)"
  shows "length (filter (\<lambda>x. x < v) (A @ v # B)) \<le> length A"
    and "length A < length (filter (\<lambda>x. x \<le> v) (A @ v # B))"
proof -
  have lo: "\<forall>a \<in> set A. a \<le> v" and hi: "\<forall>b \<in> set B. v \<le> b"
    using s by (auto simp: sorted_append)
  have "filter (\<lambda>x. x < v) B = []"
    using hi by (auto simp: filter_empty_conv)
  then show "length (filter (\<lambda>x. x < v) (A @ v # B)) \<le> length A"
    by simp
  have "filter (\<lambda>x. x \<le> v) A = A"
    using lo by (simp add: filter_id_conv)
  then show "length A < length (filter (\<lambda>x. x \<le> v) (A @ v # B))"
    by simp
qed

lemma sort_nth_is_kth:
  assumes k: "k < length xs"
  shows "is_kth xs k (sort xs ! k)"
proof -
  let ?ys = "sort xs"
  let ?v = "?ys ! k"
  have kl: "k < length ?ys" using k by simp
  have split: "?ys = take k ?ys @ ?v # drop (Suc k) ?ys"
    using kl by (rule id_take_nth_drop)
  have srt: "sorted (take k ?ys @ ?v # drop (Suc k) ?ys)"
    using split sorted_sort [of xs] by metis
  have la: "length (take k ?ys) = k" using kl by simp
  have c1: "length (filter (\<lambda>x. x < ?v) ?ys) \<le> k"
    using sorted_split_counts(1) [OF srt] la split by metis
  have c2: "k < length (filter (\<lambda>x. x \<le> ?v) ?ys)"
    using sorted_split_counts(2) [OF srt] la split by metis
  have mem: "?v \<in> set xs"
    using kl nth_mem [of k ?ys] by simp
  show ?thesis
    using c1 c2 mem by (simp add: is_kth_def length_filter_sort)
qed

lemma is_kth_unique: "is_kth xs k v \<Longrightarrow> is_kth xs k w \<Longrightarrow> v = w"
proof (rule ccontr)
  assume v: "is_kth xs k v" and w: "is_kth xs k w" and ne: "v \<noteq> w"
  have aux: "False" if a: "is_kth xs k a" and b: "is_kth xs k b" and lt: "a < b" for a b
  proof -
    have "length (filter (\<lambda>x. x \<le> a) xs) \<le> length (filter (\<lambda>x. x < b) xs)"
    proof -
      have "filter (\<lambda>x. x \<le> a) xs = filter (\<lambda>x. x \<le> a) (filter (\<lambda>x. x < b) xs)"
        using lt by (auto intro: filter_cong)
      then show ?thesis
        by (metis length_filter_le)
    qed
    then show False using a b by (simp add: is_kth_def)
  qed
  show False using aux [OF v w] aux [OF w v] ne by (cases "v < w") auto
qed

lemma Math_round_nearest: "\<bar>real_of_int (Math_round x) - x\<bar> \<le> 1 / 2"
  unfolding Math_round_def by linarith

lemma Math_round_tie_up: "x + 1 / 2 \<in> \<int> \<Longrightarrow> real_of_int (Math_round x) = x + 1 / 2"
  unfolding Math_round_def by (metis Ints_cases floor_of_int)

text \<open>
  What \<open>median\<close> returns on a non-empty list: for an odd length the middle value of
  the sorted list, for an even length the mean of the two central sorted values rounded
  to the nearest whole second (within half a second of the mean). The values read from
  the sorted list are the values of rank \<open>length div 2 - 1\<close> and \<open>length div 2\<close> of the
  list.
\<close>

lemma median_middle_value:
  "values \<noteq> [] \<Longrightarrow>
     (odd (length values) \<longrightarrow>
        median values = Some (sort values ! (length values div 2))
        \<and> is_kth values (length values div 2) (sort values ! (length values div 2)))
     \<and> (even (length values) \<longrightarrow>
        (let a = sort values ! (length values div 2 - 1);
             b = sort values ! (length values div 2)
         in is_kth values (length values div 2 - 1) a
            \<and> is_kth values (length values div 2) b
            \<and> median values = Some (real_of_int (Math_round ((a + b) / 2)))
            \<and> \<bar>real_of_int (Math_round ((a + b) / 2)) - (a + b) / 2\<bar> \<le> 1 / 2))"
proof -
  assume ne: "values \<noteq> []"
  then have pos: "0 < length values" by simp
  have mid: "length values div 2 < length values"
    using pos by simp
  have mid': "length values div 2 - 1 < length values"
    using pos by linarith
  have odd_case: "median values = Some (sort values ! (length values div 2))"
    if "odd (length values)"
    using that by (simp add: median_def Let_def odd_iff_mod_2_eq_one)
  have even_case: "median values = Some (real_of_int (Math_round
          ((sort values ! (length values div 2 - 1) + sort values ! (length values div 2)) / 2)))"
    if "even (length values)"
  proof -
    have "sort values \<noteq> []"
      using ne by (metis length_sort length_0_conv)
    then show ?thesis
      using that by (simp add: median_def Let_def even_iff_mod_2_eq_zero)
  qed
  show ?thesis
    using odd_case even_case sort_nth_is_kth [OF mid] sort_nth_is_kth [OF mid'] Math_round_nearest
    by (simp add: Let_def)
qed

lemma median_examples:
  "median [5, 1, 3] = Some 3 \<and> median [5, 1, 3, 2] = Some 3 \<and> is_kth [5, 1, 3, 2] 1 2"
  using median_middle_value [of "[5, 1, 3]"] median_middle_value [of "[5, 1, 3, 2]"]
  by (simp add: Math_round_def)

subsection \<open>The typical rep duration of the synthesizer\<close>

lemma median_nonempty: "values \<noteq> [] \<Longrightarrow> median values \<noteq> None"
proof -
  assume "values \<noteq> []"
  then have "sort values \<noteq> []" by (metis length_sort length_0_conv)
  then show ?thesis by (simp add: median_def Let_def)
qed

text \<open>
  The synthesizer returns a workout exactly when some segment qualifies, and then it has
  at least one rep.
\<close>

lemma startsWith_append: "startsWith (p @ r) p"
  by (simp add: startsWith_def)

lemma takeWhile_stop: "\<not> P y \<Longrightarrow> length (takeWhile P (xs @ y # ys)) \<le> length xs"
  by (induction xs) auto

lemma first_match_split:
  assumes "list_ex p xs"
  obtains as x bs where "xs = as @ x # bs" "p x" "takeWhile (\<lambda>x. \<not> p x) xs = as"
proof -
  have "\<exists>x\<in>set xs. p x" using assms by (simp add: list_ex_iff)
  then obtain as x bs where s: "xs = as @ x # bs" "p x" "\<forall>a\<in>set as. \<not> p a"
    using split_list_first_prop [of xs p] by blast
  have "takeWhile (\<lambda>x. \<not> p x) xs = as"
    using s by (simp add: takeWhile_append2)
  then show ?thesis using that s by blast
qed

lemma findIndex_found:
  assumes "list_ex p xs"
  shows "0 \<le> findIndex p xs" "nat (findIndex p xs) < length xs" "p (xs ! nat (findIndex p xs))"
proof -
  obtain as x bs where s: "xs = as @ x # bs" "p x" "takeWhile (\<lambda>x. \<not> p x) xs = as"
    using first_match_split [OF assms] by blast
  show "0 \<le> findIndex p xs" using assms by (simp add: findIndex_def)
  show "nat (findIndex p xs) < length xs" using assms s by (simp add: findIndex_def)
  show "p (xs ! nat (findIndex p xs))"
    using assms s by (simp add: findIndex_def)
qed

lemma findLastIndex_found:
  assumes "list_ex p xs"
  shows "findIndex p xs \<le> findLastIndex p xs"
proof -
  obtain as x bs where s: "xs = as @ x # bs" "p x" "takeWhile (\<lambda>x. \<not> p x) xs = as"
    using first_match_split [OF assms] by blast
  have "rev xs = rev bs @ x # rev as" using s by simp
  then have "length (takeWhile (\<lambda>x. \<not> p x) (rev xs)) \<le> length (rev bs)"
    using takeWhile_stop [of "\<lambda>x. \<not> p x" x "rev bs" "rev as"] s by simp
  then show ?thesis
    using assms s by (simp add: findIndex_def findLastIndex_def)
qed

lemma repStep_nonempty: "reps \<noteq> [] \<Longrightarrow> repStep pr u seg reps \<noteq> []"
  by (simp add: repStep_def)

lemma fold_repStep_nonempty: "reps \<noteq> [] \<Longrightarrow> fold (repStep pr u) segs reps \<noteq> []"
  by (induction segs arbitrary: reps) (simp_all add: repStep_nonempty)

lemma workoutReps_nonempty:
  assumes "list_ex (qualifies pr u) (mergeLapsByPace laps pr u)"
  shows "workoutReps laps pr u \<noteq> []"
proof -
  let ?segs = "mergeLapsByPace laps pr u"
  let ?i = "nat (findIndex (qualifies pr u) ?segs)"
  let ?k = "nat (findLastIndex (qualifies pr u) ?segs - findIndex (qualifies pr u) ?segs + 1)"
  have i: "?i < length ?segs" and q: "qualifies pr u (?segs ! ?i)"
    using findIndex_found [OF assms] by auto
  obtain k' where k: "?k = Suc k'"
    using findLastIndex_found [OF assms] by (cases ?k) auto
  have "take ?k (drop ?i ?segs) = ?segs ! ?i # take k' (drop (Suc ?i) ?segs)"
    using i k by (simp add: Cons_nth_drop_Suc [symmetric])
  then have "workoutReps laps pr u
               = fold (repStep pr u) (take k' (drop (Suc ?i) ?segs)) [\<lparr>fast = ?segs ! ?i, restSeconds = 0\<rparr>]"
    using q by (simp add: workoutReps_def Let_def repStep_def)
  then show ?thesis by (simp add: fold_repStep_nonempty)
qed

lemma generateWorkoutDescription_Some_iff:
  "generateWorkoutDescription laps pr u \<noteq> None \<longleftrightarrow> list_ex (qualifies pr u) (mergeLapsByPace laps pr u)"
proof
  assume "generateWorkoutDescription laps pr u \<noteq> None"
  then show "list_ex (qualifies pr u) (mergeLapsByPace laps pr u)"
    by (auto simp: generateWorkoutDescription_def Let_def findIndex_def split: if_splits)
next
  assume ex: "list_ex (qualifies pr u) (mergeLapsByPace laps pr u)"
  have ne: "laps \<noteq> []"
    using ex by (auto simp: mergeLapsByPace_def)
  have reps: "workoutReps laps pr u \<noteq> []" by (rule workoutReps_nonempty [OF ex])
  have m: "median (map (\<lambda>r. snapToMinuteIfClose (moving_time (fast r)) 2) (workoutReps laps pr u)) \<noteq> None"
    using reps by (simp add: median_nonempty)
  have f: "0 \<le> findIndex (qualifies pr u) (mergeLapsByPace laps pr u)"
    "0 \<le> findLastIndex (qualifies pr u) (mergeLapsByPace laps pr u)"
    using findIndex_found(1) [OF ex] findLastIndex_found [OF ex] by auto
  show "generateWorkoutDescription laps pr u \<noteq> None"
    using ne reps m f
    by (auto simp: generateWorkoutDescription_def workoutReps_def Let_def split: option.splits)
qed

text \<open>
  Claim C6 (median). The synthesizer returns a workout exactly when some merged segment
  qualifies. Whenever it returns one, the list of the snapped durations of its reps is
  not empty, the typical rep duration it computes is \<open>median\<close> of that list, and the
  header it returns shows that duration and the number of reps. For an odd number of
  reps the typical duration is the middle value of the sorted snapped durations, the
  value of rank \<open>n div 2\<close>; for an even number it is the mean of the two central sorted
  values, those of rank \<open>n div 2 - 1\<close> and \<open>n div 2\<close>, rounded to the nearest whole
  second, so within half a second of that mean. On any non-empty list, whether the
  synthesizer builds it or not, \<open>median\<close> returns the value so described.
\<close>

theorem typical_rep_duration:
  "(generateWorkoutDescription laps paceRange unitSystem \<noteq> None
      \<longleftrightarrow> list_ex (qualifies paceRange unitSystem) (mergeLapsByPace laps paceRange unitSystem))
   \<and> (generateWorkoutDescription laps paceRange unitSystem = Some w \<longrightarrow>
        (let durations = snappedRepDurations laps paceRange unitSystem;
             n = length durations;
             a = sort durations ! (n div 2 - 1);
             b = sort durations ! (n div 2);
             typical = (if odd n then b else real_of_int (Math_round ((a + b) / 2)))
         in durations \<noteq> []
            \<and> median durations = Some typical
            \<and> startsWith (workout_name w) (formatDuration typical @ '' x '' @ show_nat n @ '' (avg '')
            \<and> is_kth durations (n div 2) b
            \<and> (even n \<longrightarrow> is_kth durations (n div 2 - 1) a \<and> \<bar>typical - (a + b) / 2\<bar> \<le> 1 / 2)))
   \<and> (values \<noteq> [] \<longrightarrow>
        (let n = length values;
             a = sort values ! (n div 2 - 1);
             b = sort values ! (n div 2)
         in median values = Some (if odd n then b else real_of_int (Math_round ((a + b) / 2)))
            \<and> is_kth values (n div 2) b
            \<and> (even n \<longrightarrow> is_kth values (n div 2 - 1) a)))"
proof (intro conjI impI)
  assume "values \<noteq> []"
  then show "let n = length values;
             a = sort values ! (n div 2 - 1);
             b = sort values ! (n div 2)
         in median values = Some (if odd n then b else real_of_int (Math_round ((a + b) / 2)))
            \<and> is_kth values (n div 2) b
            \<and> (even n \<longrightarrow> is_kth values (n div 2 - 1) a)"
    using median_middle_value [of "values"]
    by (cases "odd (length values)") (auto simp: Let_def)
next
  show "generateWorkoutDescription laps paceRange unitSystem \<noteq> None
      \<longleftrightarrow> list_ex (qualifies paceRange unitSystem) (mergeLapsByPace laps paceRange unitSystem)"
    by (rule generateWorkoutDescription_Some_iff)
next
  assume w: "generateWorkoutDescription laps paceRange unitSystem = Some w"
  let ?reps = "workoutReps laps paceRange unitSystem"
  let ?ds = "snappedRepDurations laps paceRange unitSystem"
  have ex: "list_ex (qualifies paceRange unitSystem) (mergeLapsByPace laps paceRange unitSystem)"
    using w generateWorkoutDescription_Some_iff [of laps paceRange unitSystem] by simp
  have ne: "?ds \<noteq> []"
    using workoutReps_nonempty [OF ex] by (simp add: snappedRepDurations_def)
  obtain typical where m: "median ?ds = Some typical"
    using median_nonempty [OF ne] by auto
  have "\<exists>rest. workout_name w
                 = (formatDuration typical @ '' x '' @ show_nat (length ?ds) @ '' (avg '') @ rest"
    using w m
    by (auto simp: generateWorkoutDescription_def workoutReps_def snappedRepDurations_def Let_def
             split: if_splits)
  then have name: "startsWith (workout_name w)
                     (formatDuration typical @ '' x '' @ show_nat (length ?ds) @ '' (avg '')"
    using startsWith_append by metis
  show "let durations = ?ds;
             n = length durations;
             a = sort durations ! (n div 2 - 1);
             b = sort durations ! (n div 2);
             typical = (if odd n then b else real_of_int (Math_round ((a + b) / 2)))
         in durations \<noteq> []
            \<and> median durations = Some typical
            \<and> startsWith (workout_name w) (formatDuration typical @ '' x '' @ show_nat n @ '' (avg '')
            \<and> is_kth durations (n div 2) b
            \<and> (even n \<longrightarrow> is_kth durations (n div 2 - 1) a \<and> \<bar>typical - (a + b) / 2\<bar> \<le> 1 / 2)"
    using median_middle_value [OF ne] m name ne
    by (cases "odd (length ?ds)") (auto simp: Let_def)
qed

text \<open>
  A run of the synthesizer on two reps of 301 and 310 seconds with a rest between them:
  the first duration snaps to 300, the typical duration is the rounded mean 305 of the
  snapped durations (the durations as recorded would give 306).
\<close>

lemma example_formats:
  "formatDuration 300 = ''5:00''" "formatDuration 305 = ''5:05''" "formatDuration 310 = ''5:10''"
  "formatPace 1000 300 ''km'' = ''5:00 min/km''" "formatPace 1000 310 ''km'' = ''5:10 min/km''"
  "formatPace 2000 610 ''km'' = ''5:05 min/km''"
  "show_nat (Suc 0) = ''1''" "show_nat (Suc (Suc 0)) = ''2''"
  by (simp_all add: formatDuration_def formatPace_def paceMinutesPerUnit_def js_rem_def Math_trunc_def
        Math_round_def padStart2_def show_int_def show_nat.simps digit_char_def Let_def)

lemma example_snap:
  "snapToMinuteIfClose 301 2 = 300" "snapToMinuteIfClose 310 2 = 310" "snapToMinuteIfClose 300 2 = 300"
  by (simp_all add: snapToMinuteIfClose_def Math_round_def)

lemma example_segments:
  "mergeLapsByPace [exampleLap 1 1000 301, exampleLap 2 500 300, exampleLap 3 1000 310]
     \<lparr>fastest = 4, slowest = 6\<rparr> ''km''
   = [exampleLap 1 1000 301, exampleLap 2 500 300, exampleLap 3 1000 310]"
  "qualifies \<lparr>fastest = 4, slowest = 6\<rparr> ''km'' (exampleLap 1 1000 301)"
  "\<not> qualifies \<lparr>fastest = 4, slowest = 6\<rparr> ''km'' (exampleLap 2 500 300)"
  "qualifies \<lparr>fastest = 4, slowest = 6\<rparr> ''km'' (exampleLap 3 1000 310)"
  by (simp_all add: mergeLapsByPace_def mergeStep_def qualifies_def paceMinutesPerUnit_def exampleLap_def)

lemma example_reps:
  "workoutReps [exampleLap 1 1000 301, exampleLap 2 500 300, exampleLap 3 1000 310]
     \<lparr>fastest = 4, slowest = 6\<rparr> ''km''
   = [\<lparr>fast = exampleLap 1 1000 301, restSeconds = 300\<rparr>, \<lparr>fast = exampleLap 3 1000 310, restSeconds = 0\<rparr>]"
  apply (simp add: workoutReps_def example_segments findIndex_def findLastIndex_def repStep_def)
  apply (simp add: exampleLap_def)
  done

lemma example_durations:
  "snappedRepDurations [exampleLap 1 1000 301, exampleLap 2 500 300, exampleLap 3 1000 310]
     \<lparr>fastest = 4, slowest = 6\<rparr> ''km'' = [300, 310]"
  by (simp add: snappedRepDurations_def example_reps) (simp add: exampleLap_def example_snap)

lemma example_median: "median [300, 310] = Some 305" "median [301, 310] = Some 306"
  by (simp_all add: median_def Math_round_def)

lemma example_workout:
  "generateWorkoutDescription [exampleLap 1 1000 301, exampleLap 2 500 300, exampleLap 3 1000 310]
     \<lparr>fastest = 4, slowest = 6\<rparr> ''km''
   = Some \<lparr>workout_name = ''5:05 x 2 (avg 5:05 min/km)'',
           workout_description = ''1) 5:00 @ 5:00 min/km + rest 5:00'' @ [CHR 0x0A] @ ''2) 5:10 @ 5:10 min/km''\<rparr>"
proof -
  have reps: "repStep \<lparr>fastest = 4, slowest = 6\<rparr> ''km'' (exampleLap 3 1000 310)
                (repStep \<lparr>fastest = 4, slowest = 6\<rparr> ''km'' (exampleLap 2 500 300)
                  (repStep \<lparr>fastest = 4, slowest = 6\<rparr> ''km'' (exampleLap 1 1000 301) []))
              = [\<lparr>fast = exampleLap 1 1000 301, restSeconds = 300\<rparr>, \<lparr>fast = exampleLap 3 1000 310, restSeconds = 0\<rparr>]"
    using example_reps
    by (simp add: workoutReps_def example_segments findIndex_def findLastIndex_def)
  have idx: "findIndex (qualifies \<lparr>fastest = 4, slowest = 6\<rparr> ''km'')
               [exampleLap 1 1000 301, exampleLap 2 500 300, exampleLap 3 1000 310] = 0"
      "findLastIndex (qualifies \<lparr>fastest = 4, slowest = 6\<rparr> ''km'')
               [exampleLap 1 1000 301, exampleLap 2 500 300, exampleLap 3 1000 310] = 2"
    by (simp_all add: findIndex_def findLastIndex_def example_segments)
  have fields: "moving_time (exampleLap i d t) = t" "distance (exampleLap i d t) = d" for i d t
    by (simp_all add: exampleLap_def)
  show ?thesis
    apply (simp add: generateWorkoutDescription_def example_segments idx Let_def)
    apply (simp only: reps)
    apply (simp add: fields example_snap example_median example_formats repLine_def Let_def enumerate_eq_zip)
    done
qed

theorem typical_rep_duration_witness:
  "generateWorkoutDescription [exampleLap 1 1000 301, exampleLap 2 500 300, exampleLap 3 1000 310]
     \<lparr>fastest = 4, slowest = 6\<rparr> ''km''
   = Some \<lparr>workout_name = ''5:05 x 2 (avg 5:05 min/km)'',
           workout_description = ''1) 5:00 @ 5:00 min/km + rest 5:00'' @ [CHR 0x0A] @ ''2) 5:10 @ 5:10 min/km''\<rparr>
   \<and> snappedRepDurations [exampleLap 1 1000 301, exampleLap 2 500 300, exampleLap 3 1000 310]
         \<lparr>fastest = 4, slowest = 6\<rparr> ''km'' = [300, 310]
   \<and> median [300, 310] = Some 305
   \<and> is_kth [300, 310] 0 300 \<and> is_kth [300, 310] 1 310
   \<and> formatDuration 305 = ''5:05''
   \<and> median [5, 1, 3] = Some 3 \<and> is_kth [5, 1, 3] 1 3"
  using typical_rep_duration [of "[exampleLap 1 1000 301, exampleLap 2 500 300, exampleLap 3 1000 310]"
          "\<lparr>fastest = 4, slowest = 6\<rparr>" "''km''"
          "\<lparr>workout_name = ''5:05 x 2 (avg 5:05 min/km)'',
            workout_description = ''1) 5:00 @ 5:00 min/km + rest 5:00'' @ [CHR 0x0A] @ ''2) 5:10 @ 5:10 min/km''\<rparr>"
          "[5, 1, 3]"]
        example_workout example_durations
  by (simp add: Math_round_def example_formats Let_def startsWith_def)

text \<open>Scenarios C and D of the spec.\<close>

lemma scenario_C: "snapToMinuteIfClose 301 2 = 300" "snapToMinuteIfClose 305 2 = 305"
  by (simp_all add: snapToMinuteIfClose_def Math_round_def)

lemma scenario_D: "formatWeekTotalSuffix (5000 + 3000 + 2000) ''km'' = ''(Week Total: 10.0 km)''"
  by (simp add: formatWeekTotalSuffix_def toFixed1_def show_nat.simps digit_char_def)

section \<open>The example platform at work\<close>

lemma simpleNumber_examples:
  "simpleNumber ''06'' = Some 6" "simpleNumber ''00'' = Some 0" "simpleNumber ''22'' = Some 22"
  "simpleNumber ''4'' = Some 4" "simpleNumber ''6'' = Some 6"
  by (simp_all add: simpleNumber_def trim_def isSpace_def isDigit_def digitsValue_def digitValue_def)

lemma example_within_active_hours:
  "isWithinActiveHours simplePlatform exampleSettings 367800"
  by (simp add: isWithinActiveHours_def parseTimeHM_def exampleSettings_def split_def
        simplePlatform_def simpleNumber_examples)

lemma example_outside_active_hours:
  "\<not> isWithinActiveHours simplePlatform exampleSettings 0"
  by (simp add: isWithinActiveHours_def parseTimeHM_def exampleSettings_def split_def
        simplePlatform_def simpleNumber_examples)

lemma example_paceRange:
  "paceRangeFromSettings simplePlatform exampleSettings = Some \<lparr>fastest = 4, slowest = 6\<rparr>"
  by (simp add: paceRangeFromSettings_def parsePace_def exampleSettings_def split_def trim_def
        isSpace_def simplePlatform_def simpleNumber_examples)

lemma looksLikeRun_Run: "looksLikeRun (Some ''Run'')"
  by (simp add: looksLikeRun_def toLowerCase_def toLowerChar_def startsWith_def)

lemma example_names:
  "\<not> isAlreadyRenamed (Some ''Morning Run'')"
  "isDefaultName (Some ''Morning Run'') [''Morning Run'', ''Evening Run'']"
  by (simp_all add: isAlreadyRenamed_def isDefaultName_def toLowerCase_def toLowerChar_def
        startsWith_def matchesIntervalHeader_def isDigit_def)

lemma example_no_workout:
  "generateWorkoutDescription [exampleLap 1 1000 600] \<lparr>fastest = 4, slowest = 6\<rparr> ''km'' = None"
  by (simp add: generateWorkoutDescription_def mergeLapsByPace_def mergeStep_def qualifies_def
        paceMinutesPerUnit_def exampleLap_def findIndex_def Let_def)

section \<open>Properties of the lap poller\<close>

text \<open>One turn of the loop, case by case.\<close>

lemma lapsLoop_success:
  "attempt_le attempt maxAttempts \<Longrightarrow> canContinue st = (True, st1)
   \<Longrightarrow> stravaGetLaps svc activityId st1 = (resp, st2) \<Longrightarrow> readyLaps resp = Some laps
   \<Longrightarrow> lapsLoop svc activityId canContinue intervalMs maxAttempts attempt st = Some (Some laps, st2)"
  by (subst lapsLoop.simps) simp

lemma lapsLoop_veto:
  "attempt_le attempt maxAttempts \<Longrightarrow> canContinue st = (False, st1)
   \<Longrightarrow> lapsLoop svc activityId canContinue intervalMs maxAttempts attempt st = Some (None, st1)"
  by (subst lapsLoop.simps) simp

lemma lapsLoop_exhausted:
  "\<not> attempt_le attempt maxAttempts
   \<Longrightarrow> lapsLoop svc activityId canContinue intervalMs maxAttempts attempt st = Some (None, st)"
  by (subst lapsLoop.simps) simp

lemma lapsLoop_retry:
  "attempt_le attempt maxAttempts \<Longrightarrow> canContinue st = (True, st1)
   \<Longrightarrow> stravaGetLaps svc activityId st1 = (resp, st2) \<Longrightarrow> readyLaps resp = None
   \<Longrightarrow> lapsLoop svc activityId canContinue intervalMs maxAttempts attempt st
       = lapsLoop svc activityId canContinue intervalMs maxAttempts (attempt + 1)
           (if attempt_lt attempt maxAttempts then sleep svc intervalMs st2 else st2)"
  by (subst lapsLoop.simps) simp

text \<open>
  With a retry interval other than zero the bound is a number: the loop ends after at
  most \<open>max 1 \<lfloor>maxMinutes * 60 * 1000 / intervalMs\<rfloor>\<close> fetch attempts, and makes an
  attempt whenever the budget predicate permits the first one. (The predicate may change
  the run state, not the trace.)
\<close>

lemma trace_stravaGetLaps:
  "stravaGetLaps svc i st = (resp, st2) \<Longrightarrow> trace st2 = trace st @ [EvLaps i resp]"
  by (auto simp: stravaGetLaps_def exchange_def Let_def split: prod.splits)

lemma trace_sleep: "trace (sleep svc ms st) = trace st @ [EvSleep ms]"
  by (simp add: sleep_def)

lemma lapsLoop_finite:
  assumes cc: "\<And>s. trace (snd (canContinue s)) = trace s"
  shows "nat (n - a + 1) = k \<Longrightarrow>
         \<exists>r st' evs. lapsLoop svc i canContinue ms (Finite n) a st = Some (r, st')
            \<and> trace st' = trace st @ evs \<and> list_all isPollEvent evs
            \<and> int (lapsFetches evs) \<le> max 0 (n - a + 1)
            \<and> (fst (canContinue st) \<and> a \<le> n \<longrightarrow> 1 \<le> lapsFetches evs)"
proof (induction k arbitrary: a st)
  case 0
  then have "\<not> attempt_le a (Finite n)" by simp
  then have "lapsLoop svc i canContinue ms (Finite n) a st = Some (None, st)"
    by (rule lapsLoop_exhausted)
  moreover have "\<not> a \<le> n" using 0 by simp
  ultimately show ?case by (simp add: lapsFetches_def)
next
  case (Suc k)
  then have le: "attempt_le a (Finite n)" and an: "a \<le> n" by simp_all
  obtain go st1 where c: "canContinue st = (go, st1)" by (cases "canContinue st")
  have t1: "trace st1 = trace st" using cc [of st] c by simp
  show ?case
  proof (cases go)
    case False
    then have "lapsLoop svc i canContinue ms (Finite n) a st = Some (None, st1)"
      using lapsLoop_veto [OF le] c by simp
    then show ?thesis using t1 c False by (simp add: lapsFetches_def)
  next
    case True
    obtain resp st2 where g: "stravaGetLaps svc i st1 = (resp, st2)"
      by (cases "stravaGetLaps svc i st1")
    have t2: "trace st2 = trace st @ [EvLaps i resp]"
      using trace_stravaGetLaps [OF g] t1 by simp
    show ?thesis
    proof (cases "readyLaps resp")
      case (Some laps)
      have "lapsLoop svc i canContinue ms (Finite n) a st = Some (Some laps, st2)"
        using lapsLoop_success [OF le _ g Some] c True by simp
      then show ?thesis using t2 an by (simp add: lapsFetches_def)
    next
      case None
      let ?st3 = "if attempt_lt a (Finite n) then sleep svc ms st2 else st2"
      have step: "lapsLoop svc i canContinue ms (Finite n) a st
                    = lapsLoop svc i canContinue ms (Finite n) (a + 1) ?st3"
        using lapsLoop_retry [OF le _ g None] c True by simp
      have "nat (n - (a + 1) + 1) = k" using Suc.prems by simp
      from Suc.IH [OF this, of ?st3]
      obtain r st' evs where ih: "lapsLoop svc i canContinue ms (Finite n) (a + 1) ?st3 = Some (r, st')"
        "trace st' = trace ?st3 @ evs" "list_all isPollEvent evs"
        "int (lapsFetches evs) \<le> max 0 (n - (a + 1) + 1)"
        by blast
      let ?evs = "EvLaps i resp # (if attempt_lt a (Finite n) then [EvSleep ms] else []) @ evs"
      have tr: "trace st' = trace st @ ?evs"
        using ih(2) t2 by (simp add: trace_sleep)
      have pe: "list_all isPollEvent ?evs" using ih(3) by simp
      have cnt: "int (lapsFetches ?evs) \<le> max 0 (n - a + 1)"
        using ih(4) an by (simp add: lapsFetches_def)
      have one: "1 \<le> lapsFetches ?evs" by (simp add: lapsFetches_def)
      show ?thesis
        using step ih(1) tr pe cnt one
        by (intro exI [of _ r] exI [of _ st'] exI [of _ ?evs]) simp
    qed
  qed
qed

lemma maxAttemptsFor_finite:
  "intervalMs \<noteq> 0 \<Longrightarrow> maxAttemptsFor intervalMs maxMinutes = Finite (max 1 \<lfloor>maxMinutes * 60 * 1000 / intervalMs\<rfloor>)"
  by (simp add: maxAttemptsFor_def)

lemma fetchLapsWithRetry_bounded:
  assumes cc: "\<And>s. trace (snd (canContinue s)) = trace s"
    and nz: "lapRetryIntervalSeconds rp \<noteq> 0"
  shows "\<exists>r st' evs. fetchLapsWithRetry svc i rp canContinue st = Some (r, st')
            \<and> trace st' = trace st @ evs \<and> list_all isPollEvent evs
            \<and> int (lapsFetches evs)
                 \<le> max 1 \<lfloor>lapRetryMaxMinutes rp * 60 * 1000 / (lapRetryIntervalSeconds rp * 1000)\<rfloor>
            \<and> (fst (canContinue st) \<longrightarrow> 1 \<le> lapsFetches evs)"
proof -
  let ?n = "max 1 \<lfloor>lapRetryMaxMinutes rp * 60 * 1000 / (lapRetryIntervalSeconds rp * 1000)\<rfloor>"
  have m: "maxAttemptsFor (lapRetryIntervalSeconds rp * 1000) (lapRetryMaxMinutes rp) = Finite ?n"
    using nz by (simp add: maxAttemptsFor_finite)
  from lapsLoop_finite [OF cc refl, where n = ?n and a = 1 and svc = svc and i = i
                          and ms = "lapRetryIntervalSeconds rp * 1000" and st = st]
  obtain r st' evs where
    "lapsLoop svc i canContinue (lapRetryIntervalSeconds rp * 1000) (Finite ?n) 1 st = Some (r, st')"
    "trace st' = trace st @ evs" "list_all isPollEvent evs"
    "int (lapsFetches evs) \<le> max 0 (?n - 1 + 1)"
    "fst (canContinue st) \<and> 1 \<le> ?n \<longrightarrow> 1 \<le> lapsFetches evs"
    by blast
  then show ?thesis
    unfolding fetchLapsWithRetry_def Let_def m by (intro exI [of _ r] exI [of _ st'] exI [of _ evs]) auto
qed

text \<open>
  With a retry interval of zero and a positive budget the bound is \<^verbatim>\<open>Infinity\<close>: nothing
  but the budget predicate or a non-empty answer ends the loop.
\<close>

lemma lapsLoop_unbounded_diverges:
  assumes run: "lapsLoop svc i canContinue ms mx a st = Some y"
  shows "\<not> neverReady svc canContinue mx"
proof (rule lapsLoop.raw_induct
         [OF _ run, where P = "\<lambda>svc i canContinue ms mx a st y. \<not> neverReady svc canContinue mx"],
       goal_cases)
  case (1 loop svc i canContinue ms mx a st y)
  show ?case
  proof
    assume A: "neverReady svc canContinue mx"
    obtain resp st2 where g: "stravaGetLaps svc i st = (resp, st2)"
      by (cases "stravaGetLaps svc i st")
    have "fst (svc_laps svc i (world st)) = Ok []"
      using A by (simp add: neverReady_def)
    then have "resp = Ok []"
      using g by (auto simp: stravaGetLaps_def exchange_def Let_def split: prod.splits)
    then have nr: "readyLaps resp = None" by (simp add: readyLaps_def)
    have "loop svc i canContinue ms mx (a + 1) (sleep svc ms st2) = Some y"
      using 1(2) A g nr by (simp add: neverReady_def)
    from 1(1) [OF this] A show False by simp
  qed
qed

lemma lapsLoop_diverges:
  "(\<forall>j w. fst (svc_laps svc j w) = Ok [])
   \<Longrightarrow> lapsLoop svc i (\<lambda>s. (True, s)) ms Infinity a st = None"
  using lapsLoop_unbounded_diverges [of svc i "\<lambda>s. (True, s)" ms Infinity a st]
  by (cases "lapsLoop svc i (\<lambda>s. (True, s)) ms Infinity a st") (auto simp: neverReady_def)

text \<open>
  Claim C7 (bounded polling) says that the poller makes at most
  \<open>max(1, floor(maxBudgetMinutes * 60 * 1000 / intervalMs))\<close> attempts, so that the loop
  always ends, and at least one attempt when the budget predicate permits it. The code
  at a retry interval of zero: with a budget of 30 minutes, a predicate that always
  permits and a service that has no laps yet, \<open>fetchLapsWithRetry\<close> never returns;
  with a budget of 0 minutes the bound is \<^verbatim>\<open>NaN\<close> and it returns \<^verbatim>\<open>null\<close> without
  a single attempt, although the predicate permits and the laps are there.
\<close>

theorem fetchLapsWithRetry_zero_interval:
  "fetchLapsWithRetry (listService []) 8
     \<lparr>lapRetryIntervalSeconds = 0, lapRetryMaxMinutes = 30, maxReadsPerRun = 90\<rparr>
     (\<lambda>s. (True, s)) \<lparr>world = [], trace = [], readsUsed = 0, refreshToken = None\<rparr> = None
   \<and> fetchLapsWithRetry (listService [exampleLap 1 1000 300]) 8
       \<lparr>lapRetryIntervalSeconds = 0, lapRetryMaxMinutes = 0, maxReadsPerRun = 90\<rparr>
       (\<lambda>s. (True, s)) \<lparr>world = [], trace = [], readsUsed = 0, refreshToken = None\<rparr>
     = Some (None, \<lparr>world = [], trace = [], readsUsed = 0, refreshToken = None\<rparr>)"
proof -
  have "\<forall>j w. fst (svc_laps (listService []) j w) = Ok []"
    by (simp add: listService_def)
  then have a: "lapsLoop (listService []) 8 (\<lambda>s. (True, s)) 0 Infinity 1
                  \<lparr>world = [], trace = [], readsUsed = 0, refreshToken = None\<rparr> = None"
    by (rule lapsLoop_diverges)
  have b: "lapsLoop (listService [exampleLap 1 1000 300]) 8 (\<lambda>s. (True, s)) 0 NaN 1
             \<lparr>world = [], trace = [], readsUsed = 0, refreshToken = None\<rparr>
           = Some (None, \<lparr>world = [], trace = [], readsUsed = 0, refreshToken = None\<rparr>)"
    by (rule lapsLoop_exhausted) simp
  show ?thesis
    using a b by (simp add: fetchLapsWithRetry_def maxAttemptsFor_def)
qed

section \<open>Every run returns\<close>

text \<open>
  Under the budget predicate that \<open>main\<close> passes down, the lap poller and the week
  listing end: each turn consumes one read, and the predicate refuses once the cap is
  reached. This holds for every bound on the attempts, \<^verbatim>\<open>Infinity\<close> included.
\<close>

lemma readsUsed_stravaGetLaps:
  "stravaGetLaps svc i st = (resp, st2) \<Longrightarrow> readsUsed st2 = readsUsed st"
  by (auto simp: stravaGetLaps_def exchange_def Let_def split: prod.splits)

lemma readsUsed_stravaGetListPage:
  "stravaGetListPage svc perPage page a b st = (resp, st2) \<Longrightarrow> readsUsed st2 = readsUsed st"
  by (auto simp: stravaGetListPage_def exchange_def Let_def split: prod.splits)

lemma readsUsed_sleep: "readsUsed (sleep svc ms st) = readsUsed st"
  by (simp add: sleep_def)

lemma lapsLoop_returns:
  "nat (\<lceil>maxReadsPerRun rp\<rceil> - readsUsed st) = k
   \<Longrightarrow> \<exists>y. lapsLoop svc i (consumeRead rp) ms mx a st = Some y"
proof (induction k arbitrary: a st rule: less_induct)
  case (less k)
  show ?case
  proof (cases "attempt_le a mx")
    case False
    then show ?thesis by (simp add: lapsLoop_exhausted)
  next
    case le: True
    let ?st1 = "st\<lparr>readsUsed := readsUsed st + 1\<rparr>"
    show ?thesis
    proof (cases "real_of_int (readsUsed st + 1) < maxReadsPerRun rp")
      case False
      then have "consumeRead rp st = (False, ?st1)" by (simp add: consumeRead_def)
      from lapsLoop_veto [where canContinue = "consumeRead rp" and st = st, OF le this]
      show ?thesis by blast
    next
      case True
      then have c: "consumeRead rp st = (True, ?st1)" by (simp add: consumeRead_def)
      obtain resp st2 where g: "stravaGetLaps svc i ?st1 = (resp, st2)"
        by (cases "stravaGetLaps svc i ?st1")
      have r2: "readsUsed st2 = readsUsed st + 1"
        using readsUsed_stravaGetLaps [OF g] by simp
      show ?thesis
      proof (cases "readyLaps resp")
        case (Some laps)
        from lapsLoop_success [where canContinue = "consumeRead rp" and st = st, OF le c g Some]
        show ?thesis by blast
      next
        case None
        let ?st3 = "if attempt_lt a mx then sleep svc ms st2 else st2"
        have r3: "readsUsed ?st3 = readsUsed st + 1"
          using r2 by (simp add: readsUsed_sleep)
        have "readsUsed st + 1 < \<lceil>maxReadsPerRun rp\<rceil>"
          using True by linarith
        then have "nat (\<lceil>maxReadsPerRun rp\<rceil> - readsUsed ?st3) < k"
          using less.prems r3 by linarith
        from less.IH [OF this refl, of "a + 1"]
        obtain y where "lapsLoop svc i (consumeRead rp) ms mx (a + 1) ?st3 = Some y" by blast
        then show ?thesis
          using lapsLoop_retry [where canContinue = "consumeRead rp" and st = st, OF le c g None]
          by simp
      qed
    qed
  qed
qed

lemma pagesLoop_returns:
  "nat (\<lceil>maxReadsPerRun rp\<rceil> - readsUsed st) = k
   \<Longrightarrow> \<exists>y. pagesLoop svc (consumeRead rp) perPage a b page acts st = Some y"
proof (induction k arbitrary: page acts st rule: less_induct)
  case (less k)
  let ?st1 = "st\<lparr>readsUsed := readsUsed st + 1\<rparr>"
  show ?case
  proof (cases "real_of_int (readsUsed st + 1) < maxReadsPerRun rp")
    case False
    then have "consumeRead rp st = (False, ?st1)" by (simp add: consumeRead_def)
    then show ?thesis by (subst pagesLoop.simps) simp
  next
    case True
    then have c: "consumeRead rp st = (True, ?st1)" by (simp add: consumeRead_def)
    obtain resp st2 where g: "stravaGetListPage svc perPage page a b ?st1 = (resp, st2)"
      by (cases "stravaGetListPage svc perPage page a b ?st1")
    have r2: "readsUsed st2 = readsUsed st + 1"
      using readsUsed_stravaGetListPage [OF g] by simp
    show ?thesis
    proof (cases "okBody resp")
      case None
      then show ?thesis using c g by (subst pagesLoop.simps) simp
    next
      case (Some batch)
      show ?thesis
      proof (cases "int (length batch) < perPage")
        case lt: True
        then show ?thesis using c g Some by (subst pagesLoop.simps) simp
      next
        case ge: False
        have "readsUsed st + 1 < \<lceil>maxReadsPerRun rp\<rceil>"
          using True by linarith
        then have "nat (\<lceil>maxReadsPerRun rp\<rceil> - readsUsed st2) < k"
          using less.prems r2 by linarith
        from less.IH [OF this refl, of "page + 1" "acts @ batch"]
        obtain y where "pagesLoop svc (consumeRead rp) perPage a b (page + 1) (acts @ batch) st2 = Some y"
          by blast
        then show ?thesis using c g Some ge by (subst pagesLoop.simps) simp
      qed
    qed
  qed
qed

lemma fetchLapsWithRetry_returns:
  "fetchLapsWithRetry svc i rp (consumeRead rp) s \<noteq> None"
  unfolding fetchLapsWithRetry_def Let_def
  using lapsLoop_returns [OF refl, where rp = rp and st = s and svc = svc and i = i]
  by (metis option.distinct(1))

lemma processActivity_returns:
  "processActivity svc settings rp pr defaults summary st \<noteq> None"
  unfolding processActivity_def Let_def
  by (simp add: fetchLapsWithRetry_returns split: prod.splits response.splits option.splits)

lemma processActivities_returns:
  "processActivities svc settings rp pr defaults acts st \<noteq> None"
proof (induction acts arbitrary: st)
  case Nil
  show ?case by simp
next
  case (Cons a acts)
  then show ?case
    by (simp add: processActivity_returns split: option.splits)
qed

lemma maybeFinalizePreviousWeek_returns:
  "maybeFinalizePreviousWeek P svc now settings (consumeRead rp) st \<noteq> None"
proof -
  have l: "\<And>a b. pagesLoop svc (consumeRead rp) 200 a b 1 [] st \<noteq> None"
    using pagesLoop_returns [OF refl, where rp = rp and st = st and svc = svc and perPage = 200
                               and page = 1 and acts = "[]"]
    by (metis option.distinct(1))
  show ?thesis
    unfolding maybeFinalizePreviousWeek_def Let_def
    by (simp add: l split: prod.splits option.splits)
qed

text \<open>
  Every run returns: the read counter grows with each turn of the two loops, and the
  budget predicate of \<open>main\<close> stops them at the cap. (The cap is a real number here;
  a cap that is not finite is outside the model.)
\<close>

lemma main_returns: "main P svc settings e now w \<noteq> None"
  unfolding main_def Let_def
  by (simp add: processActivities_returns maybeFinalizePreviousWeek_returns
           split: prod.splits sum.splits response.splits option.splits)

section \<open>Runs of the example service\<close>

lemma pagesLoop_single_page:
  "cr st = (True, st1) \<Longrightarrow> stravaGetListPage svc perPage page a b st1 = (Ok batch, st2)
   \<Longrightarrow> int (length batch) < perPage
   \<Longrightarrow> pagesLoop svc cr perPage a b page acts st = Some (Some (acts @ batch), st2)"
  by (subst pagesLoop.simps) (simp add: okBody_def)

lemma example_name_tests:
  "\<not> isAlreadyRenamed (Some ''Long Run'')"
  "\<not> isDefaultName (Some ''Long Run'') [''Morning Run'', ''Evening Run'']"
  by (simp_all add: isAlreadyRenamed_def isDefaultName_def toLowerCase_def toLowerChar_def
        startsWith_def matchesIntervalHeader_def isDigit_def)

lemma example_suffix: "formatWeekTotalSuffix 5000 ''km'' = ''(Week Total: 5.0 km)''"
  by (simp add: formatWeekTotalSuffix_def toFixed1_def show_nat.simps digit_char_def)

lemma example_append:
  "appendWeekTotalSuffix ''Long Run'' ''(Week Total: 5.0 km)'' = ''Long Run (Week Total: 5.0 km)''"
  by (simp add: appendWeekTotalSuffix_def trim_def isSpace_def weekTotalTail_def startsWith_def
        toLowerCase_def toLowerChar_def)

lemma example_weekTotalRename:
  "weekTotalRename simplePlatform exampleSettings [exampleRun 7 ''Long Run'' ''1970-01-03T10:00:00Z'']
   = Some (7, \<lparr>upd_name = Some ''Long Run (Week Total: 5.0 km)'', upd_description = None\<rparr>)"
  by (simp add: weekTotalRename_def exampleRun_def exampleSettings_def looksLikeRun_Run truthy_def
        example_suffix example_append startsWith_def Let_def)

lemma example_after_window:
  "isWithinActiveHours simplePlatform exampleSettings 377800"
  by (simp add: isWithinActiveHours_def parseTimeHM_def exampleSettings_def split_def
        simplePlatform_def simpleNumber_examples)

lemma example_parse_start: "parseTimeHM simplePlatform (cfg_activeHours_start exampleSettings) = Some (6, 0)"
  by (simp add: parseTimeHM_def exampleSettings_def split_def simplePlatform_def simpleNumber_examples)

lemma example_credentials:
  "truthy (STRAVA_CLIENT_ID exampleEnv)" "truthy (STRAVA_CLIENT_SECRET exampleEnv)"
  "truthy (STRAVA_REFRESH_TOKEN exampleEnv)"
  by (simp_all add: truthy_def exampleEnv_def)

lemma example_refresh:
  "refreshAccessToken simplePlatform (listService laps) exampleEnv
     \<lparr>world = w, trace = [], readsUsed = 0, refreshToken = STRAVA_REFRESH_TOKEN exampleEnv\<rparr>
   = (Inr ''token'', \<lparr>world = w, trace = [EvToken ''id'' ''secret'' ''refresh'' (Ok (''token'', None))],
                       readsUsed = 0, refreshToken = Some ''refresh''\<rparr>)"
  by (simp add: refreshAccessToken_def exchange_def listService_def exampleEnv_def envString_def)

lemma example_weekStart: "cfg_weekStart exampleSettings = ''monday''"
  by (simp add: exampleSettings_def)

lemma example_clock:
  "dt_hour simplePlatform t = (t div 3600) mod 24" "dt_minute simplePlatform t = (t div 60) mod 60"
  "dt_weekday simplePlatform t = (t div 86400 + 3) mod 7 + 1"
  "dt_startOfDay simplePlatform t = t - t mod 86400"
  "dt_minusDays simplePlatform t n = t - 86400 * n"
  "dt_toSeconds simplePlatform t = real_of_int t"
  by (simp_all add: simplePlatform_def)

lemma example_put:
  "svc_put (listService laps) i u w = (Ok (), renameIn i u w)"
  by (simp add: listService_def)

lemma example_weekly:
  "maybeFinalizePreviousWeek simplePlatform (listService laps) 367800 exampleSettings
     (consumeRead \<lparr>lapRetryIntervalSeconds = 60, lapRetryMaxMinutes = 30, maxReadsPerRun = 90\<rparr>)
     \<lparr>world = [exampleRun 7 ''Long Run'' ''1970-01-03T10:00:00Z''], trace = tr, readsUsed = 1,
      refreshToken = Some ''refresh''\<rparr>
   = Some \<lparr>world = [exampleRun 7 ''Long Run (Week Total: 5.0 km)'' ''1970-01-03T10:00:00Z''],
           trace = tr @ [EvListPage 200 1 (- 259200) 345600 (Ok [exampleRun 7 ''Long Run'' ''1970-01-03T10:00:00Z'']),
                         EvPut 7 \<lparr>upd_name = Some ''Long Run (Week Total: 5.0 km)'', upd_description = None\<rparr> (Ok ())],
           readsUsed = 2, refreshToken = Some ''refresh''\<rparr>"
proof -
  let ?run = "exampleRun 7 ''Long Run'' ''1970-01-03T10:00:00Z''"
  let ?rp = "\<lparr>lapRetryIntervalSeconds = 60, lapRetryMaxMinutes = 30, maxReadsPerRun = 90\<rparr>"
  let ?st = "\<lparr>world = [?run], trace = tr, readsUsed = 1, refreshToken = Some ''refresh''\<rparr>"
  let ?st1 = "\<lparr>world = [?run], trace = tr, readsUsed = 2, refreshToken = Some ''refresh''\<rparr>"
  let ?st2 = "\<lparr>world = [?run], trace = tr @ [EvListPage 200 1 (- 259200) 345600 (Ok [?run])],
               readsUsed = 2, refreshToken = Some ''refresh''\<rparr>"
  have pages: "pagesLoop (listService laps) (consumeRead ?rp) 200 (- 259200) 345600 1 [] ?st
                 = Some (Some ([] @ [?run]), ?st2)"
    by (rule pagesLoop_single_page [where ?st1.0 = ?st1])
       (simp_all add: consumeRead_def stravaGetListPage_def exchange_def listService_def)
  show ?thesis
    using pages
    apply (simp add: maybeFinalizePreviousWeek_def example_parse_start startOfWeek_def example_weekStart
          example_clock example_weekTotalRename stravaPutActivity_def exchange_def example_put Let_def)
    apply (simp add: renameIn_def exampleRun_def)
    done
qed

lemma example_list:
  "stravaGetList (listService laps) perPage a \<lparr>world = w, trace = tr, readsUsed = n, refreshToken = t\<rparr>
   = (Ok w, \<lparr>world = w, trace = tr @ [EvList perPage a (Ok w)], readsUsed = n, refreshToken = t\<rparr>)"
  by (simp add: stravaGetList_def exchange_def listService_def)

lemma example_retry_defaults:
  "cfg_lapRetryIntervalSeconds exampleSettings = None" "cfg_lapRetryMaxMinutes exampleSettings = None"
  "cfg_maxReadsPerRun exampleSettings = None" "cfg_weekTotals exampleSettings"
  "cfg_defaultRunNames exampleSettings = Some [''Morning Run'', ''Evening Run'']"
  by (simp_all add: exampleSettings_def)

lemma example_skip_long_run:
  "processActivity svc settings rp pr [''Morning Run'', ''Evening Run'']
     (exampleRun 7 ''Long Run'' d) st = Some st"
  by (simp add: processActivity_def exampleRun_def looksLikeRun_Run example_name_tests)

lemma example_rename_morning_run:
  "processActivity (listService [exampleLap 1 1000 600]) exampleSettings
     \<lparr>lapRetryIntervalSeconds = 60, lapRetryMaxMinutes = 30, maxReadsPerRun = 90\<rparr>
     \<lparr>fastest = 4, slowest = 6\<rparr> [''Morning Run'', ''Evening Run'']
     (exampleRun 8 ''Morning Run'' d)
     \<lparr>world = [exampleRun 8 ''Morning Run'' d], trace = tr, readsUsed = 1, refreshToken = t\<rparr>
   = Some \<lparr>world = [exampleRun 8 ''Easy Run'' d],
           trace = tr @ [EvDetail 8 (Ok (exampleRun 8 ''Morning Run'' d)),
                         EvLaps 8 (Ok [exampleLap 1 1000 600]),
                         EvPut 8 \<lparr>upd_name = Some ''Easy Run'',
                                  upd_description = Some ''Avg HR: 152 bpm (80% max)''\<rparr> (Ok ())],
           readsUsed = 3, refreshToken = t\<rparr>"
proof -
  let ?run = "exampleRun 8 ''Morning Run'' d"
  let ?svc = "listService [exampleLap 1 1000 600]"
  let ?rp = "\<lparr>lapRetryIntervalSeconds = 60, lapRetryMaxMinutes = 30, maxReadsPerRun = 90\<rparr>"
  let ?st1 = "\<lparr>world = [?run], trace = tr @ [EvDetail 8 (Ok ?run)], readsUsed = 1, refreshToken = t\<rparr>"
  let ?st3 = "\<lparr>world = [?run], trace = tr @ [EvDetail 8 (Ok ?run), EvLaps 8 (Ok [exampleLap 1 1000 600])],
               readsUsed = 3, refreshToken = t\<rparr>"
  have id8: "act_id ?run = 8" by (simp add: exampleRun_def)
  have detail: "stravaGetDetail ?svc 8 \<lparr>world = [?run], trace = tr, readsUsed = 1, refreshToken = t\<rparr> = (Ok ?run, ?st1)"
    by (simp add: stravaGetDetail_def exchange_def listService_def exampleRun_def)
  have laps: "fetchLapsWithRetry ?svc 8 ?rp (consumeRead ?rp)
                \<lparr>world = [?run], trace = tr @ [EvDetail 8 (Ok ?run)], readsUsed = 2, refreshToken = t\<rparr>
              = Some (Some [exampleLap 1 1000 600], ?st3)"
    by (simp add: fetchLapsWithRetry_def maxAttemptsFor_def)
       (rule lapsLoop_success [where ?st1.0 = "\<lparr>world = [?run], trace = tr @ [EvDetail 8 (Ok ?run)], readsUsed = 3, refreshToken = t\<rparr>"
                                 and resp = "Ok [exampleLap 1 1000 600]"],
         simp_all add: consumeRead_def stravaGetLaps_def exchange_def listService_def readyLaps_def)
  have upd: "buildUpdate ?run [exampleLap 1 1000 600] \<lparr>fastest = 4, slowest = 6\<rparr> exampleSettings
               = \<lparr>upd_name = Some ''Easy Run'', upd_description = Some ''Avg HR: 152 bpm (80% max)''\<rparr>"
    by (simp add: buildUpdate_def example_no_workout formatAvgHrDescription_def exampleRun_def
          exampleSettings_def Math_round_def show_int_def show_nat.simps digit_char_def)
  have tests: "looksLikeRun (act_type ?run)" "\<not> isAlreadyRenamed (act_name ?run)"
    "isDefaultName (act_name ?run) [''Morning Run'', ''Evening Run'']" "act_workout_type ?run \<noteq> Some 1"
    by (simp_all add: exampleRun_def looksLikeRun_Run example_names)
  show ?thesis
    apply (simp add: processActivity_def tests id8 detail laps upd stravaPutActivity_def exchange_def
            example_put Let_def)
    apply (simp add: renameIn_def exampleRun_def)
    done
qed

section \<open>Configuration errors\<close>

subsection \<open>What \<open>parsePace\<close> rejects\<close>

text \<open>
  \<^verbatim>\<open>parsePace\<close> returns \<^verbatim>\<open>null\<close> for exactly the bounds the spec calls invalid, apart
  from the texts with a colon that stand for zero: its branch for \<^verbatim>\<open>m:s\<close> tests
  \<^verbatim>\<open>s < 0\<close>, \<^verbatim>\<open>s >= 60\<close> and \<^verbatim>\<open>m < 0\<close> and has no test of the value, where the branch
  for a plain number tests \<^verbatim>\<open>num <= 0\<close>.
\<close>

lemma parsePace_rejects:
  "parsePace P v = None \<longleftrightarrow> specInvalidPace P v \<and> \<not> zeroColonPace P v"
proof -
  have arith: "m + s / 60 \<le> 0 \<longleftrightarrow> m + s / 60 = 0" if "0 \<le> m" "0 \<le> s" for m s :: real
    using that by auto
  show ?thesis
    by (auto simp: parsePace_def specPaceValue_def specInvalidPace_def zeroColonPace_def Let_def arith
                   not_less not_le
             split: list.splits option.splits)
qed

lemma paceRangeFromSettings_rejects:
  "paceRangeFromSettings P settings = None \<longleftrightarrow>
     (specInvalidPace P (cfg_paceRange_fastest settings) \<and> \<not> zeroColonPace P (cfg_paceRange_fastest settings))
     \<or> (specInvalidPace P (cfg_paceRange_slowest settings) \<and> \<not> zeroColonPace P (cfg_paceRange_slowest settings))"
  using parsePace_rejects [of P "cfg_paceRange_fastest settings"]
        parsePace_rejects [of P "cfg_paceRange_slowest settings"]
  by (auto simp: paceRangeFromSettings_def split: option.splits)

lemma simpleNumber_zero: "simpleNumber ''0'' = Some 0"
  by (simp add: simpleNumber_def trim_def isSpace_def isDigit_def digitsValue_def digitValue_def)

lemma example_bad_pace:
  "specInvalidPace simplePlatform ''fast''" "\<not> zeroColonPace simplePlatform ''fast''"
  by (simp_all add: specInvalidPace_def zeroColonPace_def specPaceValue_def trim_def isSpace_def
        simplePlatform_def simpleNumber_def isDigit_def)

lemma example_zero_pace:
  "parsePace simplePlatform ''0:00'' = Some 0"
  "specInvalidPace simplePlatform ''0:00''" "zeroColonPace simplePlatform ''0:00''"
  by (simp_all add: parsePace_def specInvalidPace_def zeroColonPace_def specPaceValue_def trim_def
        isSpace_def split_def simplePlatform_def simpleNumber_examples simpleNumber_zero)

text \<open>
  With the bound \<^verbatim>\<open>0:00\<close>, which is not strictly positive, the pace range is accepted as
  0 to 6 minutes and the run goes on to the token exchange and the listing.
\<close>

lemma main_zero_pace_reaches_network:
  "paceRangeFromSettings simplePlatform (exampleSettings\<lparr>cfg_paceRange_fastest := ''0:00''\<rparr>)
     = Some \<lparr>fastest = 0, slowest = 6\<rparr>
   \<and> main simplePlatform (listService []) (exampleSettings\<lparr>cfg_paceRange_fastest := ''0:00''\<rparr>) exampleEnv
        377800 []
     = Some (Inr (),
             \<lparr>world = [], trace = [EvToken ''id'' ''secret'' ''refresh'' (Ok (''token'', None)),
                                     EvList 50 345600 (Ok [])],
              readsUsed = 1, refreshToken = Some ''refresh''\<rparr>)"
proof -
  have w: "isWithinActiveHours simplePlatform (exampleSettings\<lparr>cfg_paceRange_fastest := ''0:00''\<rparr>) 377800"
    by (simp add: isWithinActiveHours_def parseTimeHM_def exampleSettings_def split_def
          simplePlatform_def simpleNumber_examples)
  have pr: "paceRangeFromSettings simplePlatform (exampleSettings\<lparr>cfg_paceRange_fastest := ''0:00''\<rparr>)
              = Some \<lparr>fastest = 0, slowest = 6\<rparr>"
    by (simp add: paceRangeFromSettings_def example_zero_pace)
       (simp add: parsePace_def exampleSettings_def split_def trim_def isSpace_def simplePlatform_def
          simpleNumber_examples)
  show ?thesis
    using w
    by (simp add: main_def example_credentials pr example_refresh example_list example_clock
          example_retry_defaults maybeFinalizePreviousWeek_def example_parse_start Let_def)
qed

subsection \<open>The run with a configuration error\<close>

text \<open>
  Claim C9 (configuration errors), as the code has it. A pace bound is invalid when its
  text stands for no number or for a number that is not strictly positive
  (\<open>specInvalidPace\<close>); the bounds with a colon that stand for zero (\<open>zeroColonPace\<close>) are
  left out of the statement. When a credential is missing or one of the two pace bounds
  is invalid, the run ends before any network exchange: its trace is empty. Within the
  active hours it ends by throwing (missing credentials are reported first, then the
  pace range); outside the active hours it has returned normally before either check
  is reached.
\<close>

theorem main_config_error:
  "\<not> truthy (STRAVA_CLIENT_ID e) \<or> \<not> truthy (STRAVA_CLIENT_SECRET e) \<or> \<not> truthy (STRAVA_REFRESH_TOKEN e)
     \<or> (specInvalidPace P (cfg_paceRange_fastest settings) \<and> \<not> zeroColonPace P (cfg_paceRange_fastest settings))
     \<or> (specInvalidPace P (cfg_paceRange_slowest settings) \<and> \<not> zeroColonPace P (cfg_paceRange_slowest settings))
   \<Longrightarrow> main P svc settings e now w =
         Some (if \<not> isWithinActiveHours P settings now then Inr ()
               else if \<not> truthy (STRAVA_CLIENT_ID e) \<or> \<not> truthy (STRAVA_CLIENT_SECRET e)
                       \<or> \<not> truthy (STRAVA_REFRESH_TOKEN e) then Inl MissingCredentials
               else Inl InvalidPaceRange,
               \<lparr>world = w, trace = [], readsUsed = 0, refreshToken = STRAVA_REFRESH_TOKEN e\<rparr>)"
proof -
  assume "\<not> truthy (STRAVA_CLIENT_ID e) \<or> \<not> truthy (STRAVA_CLIENT_SECRET e) \<or> \<not> truthy (STRAVA_REFRESH_TOKEN e)
     \<or> (specInvalidPace P (cfg_paceRange_fastest settings) \<and> \<not> zeroColonPace P (cfg_paceRange_fastest settings))
     \<or> (specInvalidPace P (cfg_paceRange_slowest settings) \<and> \<not> zeroColonPace P (cfg_paceRange_slowest settings))"
  then have "\<not> truthy (STRAVA_CLIENT_ID e) \<or> \<not> truthy (STRAVA_CLIENT_SECRET e) \<or> \<not> truthy (STRAVA_REFRESH_TOKEN e)
     \<or> paceRangeFromSettings P settings = None"
    by (simp only: paceRangeFromSettings_rejects)
  then show ?thesis
    by (auto simp: main_def Let_def)
qed

theorem main_config_error_witness:
  "main simplePlatform (listService []) exampleSettings (exampleEnv\<lparr>STRAVA_CLIENT_SECRET := Some ''''\<rparr>)
      367800 []
   = Some (Inl MissingCredentials,
           \<lparr>world = [], trace = [], readsUsed = 0, refreshToken = Some ''refresh''\<rparr>)
   \<and> main simplePlatform (listService []) (exampleSettings\<lparr>cfg_paceRange_fastest := ''fast''\<rparr>) exampleEnv
      367800 []
   = Some (Inl InvalidPaceRange,
           \<lparr>world = [], trace = [], readsUsed = 0, refreshToken = Some ''refresh''\<rparr>)"
proof -
  have w: "isWithinActiveHours simplePlatform (exampleSettings\<lparr>cfg_paceRange_fastest := ''fast''\<rparr>) 367800"
    by (simp add: isWithinActiveHours_def parseTimeHM_def exampleSettings_def split_def
          simplePlatform_def simpleNumber_examples)
  show ?thesis
    using main_config_error [of "exampleEnv\<lparr>STRAVA_CLIENT_SECRET := Some ''''\<rparr>" simplePlatform exampleSettings
            "listService []" "367800" "[]"]
          main_config_error [of exampleEnv simplePlatform "exampleSettings\<lparr>cfg_paceRange_fastest := ''fast''\<rparr>"
            "listService []" "367800" "[]"]
          example_within_active_hours w example_bad_pace example_credentials
    by (simp add: truthy_def exampleEnv_def)
qed

text \<open>
  The spec has the run abort whenever a credential is missing. At midnight, outside the
  active hours from 06:00 to 22:00, a run without \<^verbatim>\<open>STRAVA_CLIENT_ID\<close> returns normally.
\<close>

theorem main_outside_hours_counterexample:
  "\<not> truthy (STRAVA_CLIENT_ID (exampleEnv\<lparr>STRAVA_CLIENT_ID := None\<rparr>))
   \<and> main simplePlatform (listService []) exampleSettings (exampleEnv\<lparr>STRAVA_CLIENT_ID := None\<rparr>) 0 []
     = Some (Inr (), \<lparr>world = [], trace = [], readsUsed = 0, refreshToken = Some ''refresh''\<rparr>)"
  using example_outside_active_hours by (simp add: main_def truthy_def exampleEnv_def)

section \<open>Runs without intervals\<close>

lemma buildUpdate_no_workout:
  "generateWorkoutDescription laps paceRange (if cfg_unitSystem settings = ''km'' then ''km'' else ''mi'') = None
   \<Longrightarrow> buildUpdate act laps paceRange settings = easyRunUpdate act settings"
  by (auto simp: buildUpdate_def easyRunUpdate_def formatAvgHrDescription_def Let_def
           split: option.splits)

text \<open>
  Claim C10 (easy run). When \<open>generateWorkoutDescription\<close> finds no interval workout
  in the laps fetched for a default-named run that is not a race, the update built is
  \<open>easyRunUpdate\<close>: the name is exactly \<^verbatim>\<open>Easy Run\<close>, the description is the
  average heart rate line (with the percentage of the maximum when a maximum other than
  zero is configured) or empty when the activity carries no average heart rate; and the
  loop body sends that update for the activity as its next exchange.
\<close>

theorem easy_run_rewrite:
  "looksLikeRun (act_type summary) \<or> looksLikeRun (act_sport_type summary)
   \<Longrightarrow> \<not> isAlreadyRenamed (act_name summary)
   \<Longrightarrow> isDefaultName (act_name summary) defaultNames
   \<Longrightarrow> stravaGetDetail svc (act_id summary) st = (Ok detail, st1)
   \<Longrightarrow> act_workout_type detail \<noteq> Some 1
   \<Longrightarrow> isDefaultName (act_name detail) defaultNames
   \<Longrightarrow> fetchLapsWithRetry svc (act_id detail) retryPolicy (consumeRead retryPolicy)
         (st1\<lparr>readsUsed := readsUsed st1 + 1\<rparr>) = Some (Some laps, st3)
   \<Longrightarrow> generateWorkoutDescription laps paceRange (if cfg_unitSystem settings = ''km'' then ''km'' else ''mi'') = None
   \<Longrightarrow> buildUpdate detail laps paceRange settings = easyRunUpdate detail settings
       \<and> (\<exists>st4. processActivity svc settings retryPolicy paceRange defaultNames summary st = Some st4
              \<and> trace st4 = trace st3 @ [EvPut (act_id detail) (easyRunUpdate detail settings)
                                           (fst (svc_put svc (act_id detail) (easyRunUpdate detail settings) (world st3)))])"
  by (auto simp: processActivity_def buildUpdate_no_workout stravaPutActivity_def exchange_def Let_def
           split: prod.splits)

theorem easy_run_rewrite_witness:
  "\<exists>st4. processActivity (listService [exampleLap 1 1000 600]) exampleSettings
            \<lparr>lapRetryIntervalSeconds = 60, lapRetryMaxMinutes = 30, maxReadsPerRun = 90\<rparr>
            \<lparr>fastest = 4, slowest = 6\<rparr> [''Morning Run'', ''Evening Run'']
            (exampleRun 8 ''Morning Run'' ''1970-01-04T10:00:00Z'')
            \<lparr>world = [exampleRun 8 ''Morning Run'' ''1970-01-04T10:00:00Z''], trace = [], readsUsed = 1,
             refreshToken = None\<rparr> = Some st4
        \<and> last (trace st4)
            = EvPut 8 \<lparr>upd_name = Some ''Easy Run'', upd_description = Some ''Avg HR: 152 bpm (80% max)''\<rparr> (Ok ())"
proof -
  let ?run = "exampleRun 8 ''Morning Run'' ''1970-01-04T10:00:00Z''"
  let ?svc = "listService [exampleLap 1 1000 600]"
  let ?rp = "\<lparr>lapRetryIntervalSeconds = 60, lapRetryMaxMinutes = 30, maxReadsPerRun = 90\<rparr>"
  let ?st = "\<lparr>world = [?run], trace = [], readsUsed = 1, refreshToken = None\<rparr>"
  let ?st1 = "\<lparr>world = [?run], trace = [EvDetail 8 (Ok ?run)], readsUsed = 1, refreshToken = None\<rparr>"
  let ?st3 = "\<lparr>world = [?run], trace = [EvDetail 8 (Ok ?run), EvLaps 8 (Ok [exampleLap 1 1000 600])],
               readsUsed = 3, refreshToken = None\<rparr>"
  have id8: "act_id ?run = 8" by (simp add: exampleRun_def)
  have h1: "looksLikeRun (act_type ?run) \<or> looksLikeRun (act_sport_type ?run)"
    by (simp add: exampleRun_def looksLikeRun_Run)
  have h2: "\<not> isAlreadyRenamed (act_name ?run)"
    by (simp add: exampleRun_def example_names)
  have h3: "isDefaultName (act_name ?run) [''Morning Run'', ''Evening Run'']"
    by (simp add: exampleRun_def example_names)
  have h4: "stravaGetDetail ?svc (act_id ?run) ?st = (Ok ?run, ?st1)"
    by (simp add: stravaGetDetail_def exchange_def listService_def exampleRun_def)
  have h5: "act_workout_type ?run \<noteq> Some 1"
    by (simp add: exampleRun_def)
  have h7: "fetchLapsWithRetry ?svc (act_id ?run) ?rp (consumeRead ?rp) (?st1\<lparr>readsUsed := readsUsed ?st1 + 1\<rparr>)
              = Some (Some [exampleLap 1 1000 600], ?st3)"
    by (simp add: fetchLapsWithRetry_def maxAttemptsFor_def id8)
       (rule lapsLoop_success [where ?st1.0 = "\<lparr>world = [?run], trace = [EvDetail 8 (Ok ?run)], readsUsed = 3, refreshToken = None\<rparr>"
                                 and resp = "Ok [exampleLap 1 1000 600]"],
         simp_all add: consumeRead_def stravaGetLaps_def exchange_def listService_def readyLaps_def)
  have h8: "generateWorkoutDescription [exampleLap 1 1000 600] \<lparr>fastest = 4, slowest = 6\<rparr>
              (if cfg_unitSystem exampleSettings = ''km'' then ''km'' else ''mi'') = None"
    by (simp add: exampleSettings_def example_no_workout)
  have upd: "easyRunUpdate ?run exampleSettings
               = \<lparr>upd_name = Some ''Easy Run'', upd_description = Some ''Avg HR: 152 bpm (80% max)''\<rparr>"
    by (simp add: easyRunUpdate_def exampleRun_def exampleSettings_def Math_round_def show_int_def
          show_nat.simps digit_char_def)
  show ?thesis
    using easy_run_rewrite [OF h1 h2 h3 h4 h5 h3 h7 h8] upd
    by (auto simp: id8 listService_def)
qed

section \<open>Renames and the default-name check\<close>

lemma quiet_cases: "quiet e \<Longrightarrow> \<not> isListPage e"
  by (cases e) (auto simp: quiet_def)

lemma putsJustified_quiet_Cons: "quiet e \<Longrightarrow> putsJustified d seen (e # evs) = putsJustified d seen evs"
  by (cases e) (auto simp: quiet_def)

lemma putsJustified_quiet_append:
  "list_all quiet xs \<Longrightarrow> putsJustified d seen (xs @ ys) = putsJustified d seen ys"
  by (induction xs) (simp_all add: putsJustified_quiet_Cons)

lemma putsJustified_append:
  "putsJustified d seen xs \<Longrightarrow> (\<And>seen'. putsJustified d seen' ys) \<Longrightarrow> putsJustified d seen (xs @ ys)"
  by (induction d seen xs rule: putsJustified.induct) simp_all

lemma lapsLoop_trace:
  assumes run: "lapsLoop svc i canContinue ms mx a st = Some y"
  shows "(\<forall>s. trace (snd (canContinue s)) = trace s)
         \<longrightarrow> (\<exists>evs. trace (snd y) = trace st @ evs \<and> list_all isPollEvent evs)"
proof (rule lapsLoop.raw_induct
         [OF _ run, where P = "\<lambda>svc i canContinue ms mx a st y.
            (\<forall>s. trace (snd (canContinue s)) = trace s)
            \<longrightarrow> (\<exists>evs. trace (snd y) = trace st @ evs \<and> list_all isPollEvent evs)"],
       goal_cases)
  case (1 loop svc i canContinue ms mx a st y)
  show ?case
  proof
    assume cc: "\<forall>s. trace (snd (canContinue s)) = trace s"
    obtain go st1 where c: "canContinue st = (go, st1)" by (cases "canContinue st")
    have t1: "trace st1 = trace st" using cc c by (metis snd_conv)
    obtain resp st2 where g: "stravaGetLaps svc i st1 = (resp, st2)"
      by (cases "stravaGetLaps svc i st1")
    have t2: "trace st2 = trace st @ [EvLaps i resp]"
      using trace_stravaGetLaps [OF g] t1 by simp
    show "\<exists>evs. trace (snd y) = trace st @ evs \<and> list_all isPollEvent evs"
    proof (cases "\<not> attempt_le a mx \<or> \<not> go \<or> readyLaps resp \<noteq> None")
      case True
      then have "y = (None, st) \<or> y = (None, st1) \<or> y = (readyLaps resp, st2)"
        using 1(2) c g by (auto split: if_splits)
      then show ?thesis using t1 t2 by auto
    next
      case False
      let ?st3 = "if attempt_lt a mx then sleep svc ms st2 else st2"
      have "loop svc i canContinue ms mx (a + 1) ?st3 = Some y"
        using 1(2) c g False by simp
      from 1(1) [OF this] cc
      obtain evs where e: "trace (snd y) = trace ?st3 @ evs" "list_all isPollEvent evs"
        by blast
      have "trace (snd y) = trace st @ (EvLaps i resp # (if attempt_lt a mx then [EvSleep ms] else []) @ evs)"
        using e(1) t2 by (simp add: trace_sleep)
      moreover have "list_all isPollEvent (EvLaps i resp # (if attempt_lt a mx then [EvSleep ms] else []) @ evs)"
        using e(2) by simp
      ultimately show ?thesis by blast
    qed
  qed
qed

lemma trace_consumeRead: "trace (snd (consumeRead rp s)) = trace s"
  by (simp add: consumeRead_def)

lemma fetchLapsWithRetry_trace:
  "fetchLapsWithRetry svc i rp (consumeRead rp) st = Some (r, st')
   \<Longrightarrow> \<exists>evs. trace st' = trace st @ evs \<and> list_all isPollEvent evs"
  using lapsLoop_trace [of svc i "consumeRead rp" _ _ 1 st "(r, st')"]
  by (simp add: fetchLapsWithRetry_def Let_def trace_consumeRead)

lemma trace_stravaGetDetail:
  "stravaGetDetail svc i st = (resp, st1) \<Longrightarrow> trace st1 = trace st @ [EvDetail i resp]"
  by (auto simp: stravaGetDetail_def exchange_def Let_def split: prod.splits)

lemma trace_stravaPutActivity:
  "trace (snd (stravaPutActivity svc i u st)) = trace st @ [EvPut i u (fst (stravaPutActivity svc i u st))]"
  by (auto simp: stravaPutActivity_def exchange_def Let_def split: prod.splits)

lemma loopEvents_Nil: "loopEvents d []"
  by (simp add: loopEvents_def)

lemma loopEvents_append: "loopEvents d xs \<Longrightarrow> loopEvents d ys \<Longrightarrow> loopEvents d (xs @ ys)"
  by (simp add: loopEvents_def putsJustified_append)

lemma isPollEvent_quiet: "list_all isPollEvent evs \<Longrightarrow> list_all quiet evs"
  by (induction evs) (simp_all add: quiet_def)

lemma poll_not_listPage: "isPollEvent e \<Longrightarrow> \<not> isListPage e"
  by (cases e) auto

lemma not_listPage_poll: "list_all isPollEvent evs \<Longrightarrow> list_all (\<lambda>e. \<not> isListPage e) evs"
  by (induction evs) (auto dest: poll_not_listPage)

lemma processActivity_events:
  assumes run: "processActivity svc settings rp pr defaults summary st = Some st'"
  shows "\<exists>evs. trace st' = trace st @ evs \<and> loopEvents defaults evs"
proof (cases "(\<not> looksLikeRun (act_type summary) \<and> \<not> looksLikeRun (act_sport_type summary))
              \<or> isAlreadyRenamed (act_name summary) \<or> \<not> isDefaultName (act_name summary) defaults")
  case True
  then have "st' = st" using run by (auto simp: processActivity_def split: if_splits)
  then show ?thesis by (simp add: loopEvents_Nil)
next
  case pass: False
  then have c1: "\<not> (\<not> looksLikeRun (act_type summary) \<and> \<not> looksLikeRun (act_sport_type summary))"
    and c2: "\<not> isAlreadyRenamed (act_name summary)"
    and c3: "isDefaultName (act_name summary) defaults"
    by auto
  obtain resp st1 where g: "stravaGetDetail svc (act_id summary) st = (resp, st1)"
    by (cases "stravaGetDetail svc (act_id summary) st")
  have False: "processActivity svc settings rp pr defaults summary st =
      (case resp of
         NotOk status txt \<Rightarrow> Some (st1\<lparr>readsUsed := readsUsed st1 + 1\<rparr>)
       | Ok detail \<Rightarrow>
           if act_workout_type detail = Some 1 then Some (st1\<lparr>readsUsed := readsUsed st1 + 1\<rparr>)
           else if \<not> isDefaultName (act_name detail) defaults then Some (st1\<lparr>readsUsed := readsUsed st1 + 1\<rparr>)
           else
             (case fetchLapsWithRetry svc (act_id detail) rp (consumeRead rp) (st1\<lparr>readsUsed := readsUsed st1 + 1\<rparr>) of
                None \<Rightarrow> None
              | Some (None, st3) \<Rightarrow> Some st3
              | Some (Some laps, st3) \<Rightarrow>
                  Some (snd (stravaPutActivity svc (act_id detail) (buildUpdate detail laps pr settings) st3))))"
    using c1 c2 c3 g
    by (auto simp: processActivity_def Let_def split: response.splits option.splits)
  have t1: "trace st1 = trace st @ [EvDetail (act_id summary) resp]"
    by (rule trace_stravaGetDetail [OF g])
  let ?st2 = "st1\<lparr>readsUsed := readsUsed st1 + 1\<rparr>"
  show ?thesis
  proof (cases resp)
    case (NotOk s t)
    then have "st' = ?st2" using run False by simp
    then have "trace st' = trace st @ [EvDetail (act_id summary) (NotOk s t)]"
      using t1 NotOk by simp
    moreover have "loopEvents defaults [EvDetail (act_id summary) (NotOk s t)]"
      by (simp add: loopEvents_def)
    ultimately show ?thesis by blast
  next
    case (Ok detail)
    show ?thesis
    proof (cases "act_workout_type detail = Some 1 \<or> \<not> isDefaultName (act_name detail) defaults")
      case True
      then have "st' = ?st2" using run False Ok by (auto split: if_splits)
      then have "trace st' = trace st @ [EvDetail (act_id summary) (Ok detail)]"
        using t1 Ok by simp
      moreover have "loopEvents defaults [EvDetail (act_id summary) (Ok detail)]"
        by (simp add: loopEvents_def)
      ultimately show ?thesis by blast
    next
      case ok: False
      from run False Ok ok obtain r st3 where
        f: "fetchLapsWithRetry svc (act_id detail) rp (consumeRead rp) ?st2 = Some (r, st3)"
        by (auto split: option.splits)
      from fetchLapsWithRetry_trace [OF f] obtain pevs where
        p: "trace st3 = trace ?st2 @ pevs" "list_all isPollEvent pevs"
        by blast
      show ?thesis
      proof (cases r)
        case None
        then have "st' = st3" using run False Ok ok f by simp
        then have "trace st' = trace st @ (EvDetail (act_id summary) (Ok detail) # pevs)"
          using p(1) t1 Ok by simp
        moreover have "loopEvents defaults (EvDetail (act_id summary) (Ok detail) # pevs)"
          using p(2) by (simp add: loopEvents_def not_listPage_poll
                putsJustified_quiet_append [OF isPollEvent_quiet, where ys = "[]", simplified])
        ultimately show ?thesis by blast
      next
        case (Some laps)
        let ?u = "buildUpdate detail laps pr settings"
        have "st' = snd (stravaPutActivity svc (act_id detail) ?u st3)"
          using run False Ok ok f Some by simp
        then have "trace st' = trace st @ (EvDetail (act_id summary) (Ok detail) # pevs
                      @ [EvPut (act_id detail) ?u (fst (stravaPutActivity svc (act_id detail) ?u st3))])"
          using p(1) t1 Ok by (simp add: trace_stravaPutActivity)
        moreover have "loopEvents defaults (EvDetail (act_id summary) (Ok detail) # pevs
                      @ [EvPut (act_id detail) ?u (fst (stravaPutActivity svc (act_id detail) ?u st3))])"
          using p(2) ok by (simp add: loopEvents_def not_listPage_poll
                putsJustified_quiet_append [OF isPollEvent_quiet])
        ultimately show ?thesis by blast
      qed
    qed
  qed
qed

lemma processActivities_events:
  "processActivities svc settings rp pr defaults acts st = Some st'
   \<Longrightarrow> \<exists>evs. trace st' = trace st @ evs \<and> loopEvents defaults evs"
proof (induction acts arbitrary: st)
  case Nil
  then show ?case by (simp add: loopEvents_Nil)
next
  case (Cons a acts)
  show ?case
  proof (cases "real_of_int (readsUsed st) \<ge> maxReadsPerRun rp")
    case True
    then show ?thesis using Cons.prems by (simp add: loopEvents_Nil)
  next
    case False
    then obtain st1 where a: "processActivity svc settings rp pr defaults a st = Some st1"
      and r: "processActivities svc settings rp pr defaults acts st1 = Some st'"
      using Cons.prems by (auto split: option.splits)
    from processActivity_events [OF a] obtain e1 where
      e1: "trace st1 = trace st @ e1" "loopEvents defaults e1" by blast
    from Cons.IH [OF r] obtain e2 where
      e2: "trace st' = trace st1 @ e2" "loopEvents defaults e2" by blast
    have "trace st' = trace st @ (e1 @ e2)" using e1(1) e2(1) by simp
    then show ?thesis using loopEvents_append [OF e1(2) e2(2)] by blast
  qed
qed

lemma trace_exchange: "exchange ask ev st = (r, st1) \<Longrightarrow> trace st1 = trace st @ [ev r]"
  by (auto simp: exchange_def Let_def split: prod.splits)

lemma updateSecretIfPossible_trace:
  "updateSecretIfPossible P svc e name v st = (r, st')
   \<Longrightarrow> \<exists>evs. trace st' = trace st @ evs \<and> list_all isSetupEvent evs"
  unfolding updateSecretIfPossible_def Let_def
  by (auto split: option.splits if_splits prod.splits response.splits dest!: trace_exchange)

lemma refreshAccessToken_trace:
  "refreshAccessToken P svc e st = (r, st')
   \<Longrightarrow> \<exists>evs. trace st' = trace st @ evs \<and> list_all isSetupEvent evs"
  unfolding refreshAccessToken_def Let_def
  by (auto split: option.splits if_splits prod.splits response.splits sum.splits
           dest!: trace_exchange updateSecretIfPossible_trace)

lemma trace_stravaGetListPage:
  "stravaGetListPage svc perPage page a b st = (resp, st2)
   \<Longrightarrow> trace st2 = trace st @ [EvListPage perPage page a b resp]"
  by (auto simp: stravaGetListPage_def exchange_def Let_def split: prod.splits)

lemma trace_stravaGetList:
  "stravaGetList svc perPage a st = (resp, st2) \<Longrightarrow> trace st2 = trace st @ [EvList perPage a resp]"
  by (auto simp: stravaGetList_def exchange_def Let_def split: prod.splits)

lemma pagesLoop_trace:
  assumes run: "pagesLoop svc cr perPage a b page acts st = Some y"
  shows "(\<forall>s. trace (snd (cr s)) = trace s)
         \<longrightarrow> (\<exists>evs. trace (snd y) = trace st @ evs \<and> weeklyEvents evs \<and> (fst y \<noteq> None \<longrightarrow> evs \<noteq> []))"
proof (rule pagesLoop.raw_induct
         [OF _ run, where P = "\<lambda>svc cr perPage a b page acts st y.
            (\<forall>s. trace (snd (cr s)) = trace s)
            \<longrightarrow> (\<exists>evs. trace (snd y) = trace st @ evs \<and> weeklyEvents evs \<and> (fst y \<noteq> None \<longrightarrow> evs \<noteq> []))"],
       goal_cases)
  case (1 loop svc cr perPage a b page acts st y)
  show ?case
  proof
    assume cc: "\<forall>s. trace (snd (cr s)) = trace s"
    obtain go st1 where c: "cr st = (go, st1)" by (cases "cr st")
    have t1: "trace st1 = trace st" using cc c by (metis snd_conv)
    obtain resp st2 where g: "stravaGetListPage svc perPage page a b st1 = (resp, st2)"
      by (cases "stravaGetListPage svc perPage page a b st1")
    have t2: "trace st2 = trace st @ [EvListPage perPage page a b resp]"
      using trace_stravaGetListPage [OF g] t1 by simp
    show "\<exists>evs. trace (snd y) = trace st @ evs \<and> weeklyEvents evs \<and> (fst y \<noteq> None \<longrightarrow> evs \<noteq> [])"
    proof (cases go)
      case False
      then have "y = (None, st1)" using 1(2) c by simp
      then show ?thesis using t1 by (simp add: weeklyEvents_def)
    next
      case True
      show ?thesis
      proof (cases "okBody resp")
        case None
        then have "y = (None, st2)" using 1(2) c g True by simp
        then show ?thesis using t2 by (simp add: weeklyEvents_def)
      next
        case (Some batch)
        show ?thesis
        proof (cases "int (length batch) < perPage")
          case lt: True
          then have "y = (Some (acts @ batch), st2)" using 1(2) c g True Some by simp
          then show ?thesis using t2 by (simp add: weeklyEvents_def)
        next
          case ge: False
          then have "loop svc cr perPage a b (page + 1) (acts @ batch) st2 = Some y"
            using 1(2) c g True Some by simp
          from 1(1) [OF this] cc obtain evs where
            e: "trace (snd y) = trace st2 @ evs" by blast
          have "trace (snd y) = trace st @ (EvListPage perPage page a b resp # evs)"
            using e t2 by simp
          then show ?thesis by (auto simp: weeklyEvents_def)
        qed
      qed
    qed
  qed
qed

lemma maybeFinalizePreviousWeek_trace:
  assumes run: "maybeFinalizePreviousWeek P svc now settings (consumeRead rp) st = Some st'"
  shows "\<exists>evs. trace st' = trace st @ evs \<and> weeklyEvents evs"
proof (cases "real_of_int (dt_hour P now * 60 + dt_minute P now)
                > (case parseTimeHM P (cfg_activeHours_start settings) of
                     Some (h, m) \<Rightarrow> h * 60 + m | None \<Rightarrow> 0) + 30")
  case True
  then have "st' = st" using run by (simp add: maybeFinalizePreviousWeek_def Let_def)
  then show ?thesis by (simp add: weeklyEvents_def)
next
  case False
  let ?cur = "startOfWeek P now (if cfg_weekStart settings = ''sunday'' then ''sunday'' else ''monday'')"
  let ?loop = "pagesLoop svc (consumeRead rp) 200 \<lfloor>dt_toSeconds P (dt_minusDays P ?cur 7)\<rfloor>
                 \<lfloor>dt_toSeconds P ?cur\<rfloor> 1 [] st"
  have unfold: "maybeFinalizePreviousWeek P svc now settings (consumeRead rp) st =
      (case ?loop of
         None \<Rightarrow> None
       | Some (None, st1) \<Rightarrow> Some st1
       | Some (Some activities, st1) \<Rightarrow>
           (case weekTotalRename P settings activities of
              None \<Rightarrow> Some st1
            | Some (target, payload) \<Rightarrow> Some (snd (stravaPutActivity svc target payload st1))))"
    using False by (simp add: maybeFinalizePreviousWeek_def Let_def)
  from run unfold obtain r st1 where l: "?loop = Some (r, st1)"
    by (auto split: option.splits)
  from pagesLoop_trace [OF l] obtain pevs where
    p: "trace st1 = trace st @ pevs" "weeklyEvents pevs" "r \<noteq> None \<longrightarrow> pevs \<noteq> []"
    by (auto simp: trace_consumeRead)
  show ?thesis
  proof (cases "\<exists>acts target payload. r = Some acts \<and> weekTotalRename P settings acts = Some (target, payload)")
    case True
    then obtain acts target payload where
      a: "r = Some acts" "weekTotalRename P settings acts = Some (target, payload)" by blast
    have "st' = snd (stravaPutActivity svc target payload st1)"
      using run unfold l a by simp
    then have "trace st' = trace st @ (pevs @ [EvPut target payload (fst (stravaPutActivity svc target payload st1))])"
      using p(1) by (simp add: trace_stravaPutActivity)
    moreover have "weeklyEvents (pevs @ [EvPut target payload (fst (stravaPutActivity svc target payload st1))])"
      using p(2) p(3) a(1) by (auto simp: weeklyEvents_def)
    ultimately show ?thesis by blast
  next
    case False
    then have "st' = st1"
      using run unfold l by (auto split: option.splits)
    then show ?thesis using p by blast
  qed
qed

lemma takeWhile_before_weekly:
  "list_all (\<lambda>e. \<not> isListPage e) A \<Longrightarrow> weeklyEvents W
   \<Longrightarrow> takeWhile (\<lambda>e. \<not> isListPage e) (A @ W) = A"
  by (cases W) (auto simp: weeklyEvents_def takeWhile_append list_all_iff)

lemma setup_not_listPage: "list_all isSetupEvent evs \<Longrightarrow> list_all (\<lambda>e. \<not> isListPage e) evs"
proof (induction evs)
  case Nil
  show ?case by simp
next
  case (Cons e evs)
  then show ?case by (cases e) auto
qed

lemma setup_quiet: "list_all isSetupEvent evs \<Longrightarrow> list_all quiet evs"
  by (induction evs) (simp_all add: quiet_def)

lemma main_trace_shape:
  assumes run: "main P svc settings e now w = Some (r, st)"
  shows "\<exists>S L W. trace st = S @ L @ W \<and> list_all isSetupEvent S
            \<and> loopEvents (case cfg_defaultRunNames settings of Some ns \<Rightarrow> ns | None \<Rightarrow> []) L
            \<and> weeklyEvents W"
proof -
  let ?d = "case cfg_defaultRunNames settings of Some ns \<Rightarrow> ns | None \<Rightarrow> []"
  let ?st0 = "\<lparr>world = w, trace = [], readsUsed = 0, refreshToken = STRAVA_REFRESH_TOKEN e\<rparr>"
  let ?rp = "\<lparr>lapRetryIntervalSeconds = (case cfg_lapRetryIntervalSeconds settings of Some v \<Rightarrow> v | None \<Rightarrow> 60),
             lapRetryMaxMinutes = (case cfg_lapRetryMaxMinutes settings of Some v \<Rightarrow> v | None \<Rightarrow> 30),
             maxReadsPerRun = (case cfg_maxReadsPerRun settings of Some v \<Rightarrow> v | None \<Rightarrow> 90)\<rparr>"
  have trivial: "trace st = [] \<Longrightarrow> ?thesis"
    by (simp add: loopEvents_Nil weeklyEvents_def)
  have setup_only: "list_all isSetupEvent (trace st) \<Longrightarrow> ?thesis"
    by (intro exI [of _ "trace st"] exI [of _ "[]"]) (simp add: loopEvents_Nil weeklyEvents_def)
  show ?thesis
  proof (cases "\<not> isWithinActiveHours P settings now
               \<or> \<not> truthy (STRAVA_CLIENT_ID e) \<or> \<not> truthy (STRAVA_CLIENT_SECRET e)
               \<or> \<not> truthy (STRAVA_REFRESH_TOKEN e) \<or> paceRangeFromSettings P settings = None")
    case True
    then have "st = ?st0"
      using run by (auto simp: main_def Let_def split: if_splits)
    then show ?thesis using trivial by simp
  next
    case False
    then obtain pr where pr: "paceRangeFromSettings P settings = Some pr" by auto
    obtain res st1 where rf: "refreshAccessToken P svc e ?st0 = (res, st1)"
      by (cases "refreshAccessToken P svc e ?st0")
    from refreshAccessToken_trace [OF rf] have s1: "list_all isSetupEvent (trace st1)"
      by auto
    obtain listResp st2 where gl:
      "stravaGetList svc 50 \<lfloor>dt_toSeconds P (dt_startOfDay P now)\<rfloor> (st1\<lparr>readsUsed := 0\<rparr>) = (listResp, st2)"
      by (cases "stravaGetList svc 50 \<lfloor>dt_toSeconds P (dt_startOfDay P now)\<rfloor> (st1\<lparr>readsUsed := 0\<rparr>)")
    let ?st3 = "st2\<lparr>readsUsed := readsUsed st2 + 1\<rparr>"
    have s3: "list_all isSetupEvent (trace ?st3)"
      using trace_stravaGetList [OF gl] s1 by simp
    have unfold: "main P svc settings e now w =
        (case res of
           Inl err \<Rightarrow> Some (Inl err, st1)
         | Inr accessToken \<Rightarrow>
             (case listResp of
                NotOk status txt \<Rightarrow> Some (Inl (ListActivitiesFailed status txt), ?st3)
              | Ok activities \<Rightarrow>
                  (case processActivities svc settings ?rp pr ?d activities ?st3 of
                     None \<Rightarrow> None
                   | Some st4 \<Rightarrow>
                       if cfg_weekTotals settings then
                         (case maybeFinalizePreviousWeek P svc now settings (consumeRead ?rp) st4 of
                            None \<Rightarrow> None
                          | Some st5 \<Rightarrow> Some (Inr (), st5))
                       else Some (Inr (), st4))))"
      using False pr rf gl
      by (auto simp: main_def Let_def split: sum.splits response.splits option.splits)
    show ?thesis
    proof (cases res)
      case (Inl err)
      then have "st = st1" using run unfold by simp
      then show ?thesis using setup_only s1 by simp
    next
      case (Inr tok)
      show ?thesis
      proof (cases listResp)
        case (NotOk status msg)
        then have "st = ?st3" using run unfold Inr by simp
        then show ?thesis using setup_only s3 by simp
      next
        case (Ok activities)
        from run unfold Inr Ok obtain st4 where
          pa: "processActivities svc settings ?rp pr ?d activities ?st3 = Some st4"
          by (auto split: option.splits)
        from processActivities_events [OF pa] obtain L where
          L: "trace st4 = trace ?st3 @ L" "loopEvents ?d L" by blast
        show ?thesis
        proof (cases "cfg_weekTotals settings")
          case False
          then have "st = st4" using run unfold Inr Ok pa by simp
          then have "trace st = trace ?st3 @ L @ []" using L(1) by simp
          then show ?thesis using s3 L(2) by (metis weeklyEvents_def)
        next
          case True
          from run unfold Inr Ok pa True have
            mf: "maybeFinalizePreviousWeek P svc now settings (consumeRead ?rp) st4 = Some st"
            by (auto split: option.splits)
          from maybeFinalizePreviousWeek_trace [OF mf] obtain W where
            W: "trace st = trace st4 @ W" "weeklyEvents W" by blast
          have "trace st = trace ?st3 @ L @ W" using W(1) L(1) by simp
          then show ?thesis using s3 L(2) W(2) by blast
        qed
      qed
    qed
  qed
qed

text \<open>
  Claim C4 (renames only of default-named activities), as the code has it. In every run
  that returns, each rename issued before the weekly aggregator starts listing the week
  (that is, each rename of the per-activity loop) targets the activity whose detail was
  read last, and the name in that detail is exactly one of the configured default
  names. The renames of the weekly aggregator come after its listing and are not
  checked against the default names.
\<close>

theorem main_loop_puts_justified:
  "main P svc settings e now w = Some (r, st)
   \<Longrightarrow> putsJustified (case cfg_defaultRunNames settings of Some ns \<Rightarrow> ns | None \<Rightarrow> []) None
         (takeWhile (\<lambda>e. \<not> isListPage e) (trace st))"
proof -
  assume run: "main P svc settings e now w = Some (r, st)"
  let ?d = "case cfg_defaultRunNames settings of Some ns \<Rightarrow> ns | None \<Rightarrow> []"
  from main_trace_shape [OF run] obtain S L W where
    sh: "trace st = S @ L @ W" "list_all isSetupEvent S" "loopEvents ?d L" "weeklyEvents W"
    by blast
  have nl: "list_all (\<lambda>e. \<not> isListPage e) (S @ L)"
    using sh(2) sh(3) by (simp add: setup_not_listPage loopEvents_def)
  have tw: "takeWhile (\<lambda>e. \<not> isListPage e) (trace st) = S @ L"
    using takeWhile_before_weekly [OF nl sh(4)] sh(1) by simp
  have "putsJustified ?d None (S @ L)"
    using sh(2) sh(3) by (simp add: putsJustified_quiet_append setup_quiet loopEvents_def)
  then show ?thesis using tw by simp
qed

theorem main_loop_puts_justified_witness:
  "main simplePlatform (listService [exampleLap 1 1000 600]) exampleSettings exampleEnv 377800
       [exampleRun 8 ''Morning Run'' ''1970-01-04T10:00:00Z'']
     = Some (Inr (),
         \<lparr>world = [exampleRun 8 ''Easy Run'' ''1970-01-04T10:00:00Z''],
          trace = [EvToken ''id'' ''secret'' ''refresh'' (Ok (''token'', None)),
                   EvList 50 345600 (Ok [exampleRun 8 ''Morning Run'' ''1970-01-04T10:00:00Z'']),
                   EvDetail 8 (Ok (exampleRun 8 ''Morning Run'' ''1970-01-04T10:00:00Z'')),
                   EvLaps 8 (Ok [exampleLap 1 1000 600]),
                   EvPut 8 \<lparr>upd_name = Some ''Easy Run'',
                            upd_description = Some ''Avg HR: 152 bpm (80% max)''\<rparr> (Ok ())],
          readsUsed = 3, refreshToken = Some ''refresh''\<rparr>)
   \<and> putsJustified [''Morning Run'', ''Evening Run''] None
        [EvToken ''id'' ''secret'' ''refresh'' (Ok (''token'', None)),
         EvList 50 345600 (Ok [exampleRun 8 ''Morning Run'' ''1970-01-04T10:00:00Z'']),
         EvDetail 8 (Ok (exampleRun 8 ''Morning Run'' ''1970-01-04T10:00:00Z'')),
         EvLaps 8 (Ok [exampleLap 1 1000 600]),
         EvPut 8 \<lparr>upd_name = Some ''Easy Run'',
                  upd_description = Some ''Avg HR: 152 bpm (80% max)''\<rparr> (Ok ())]"
proof -
  have run: "main simplePlatform (listService [exampleLap 1 1000 600]) exampleSettings exampleEnv 377800
       [exampleRun 8 ''Morning Run'' ''1970-01-04T10:00:00Z'']
     = Some (Inr (),
         \<lparr>world = [exampleRun 8 ''Easy Run'' ''1970-01-04T10:00:00Z''],
          trace = [EvToken ''id'' ''secret'' ''refresh'' (Ok (''token'', None)),
                   EvList 50 345600 (Ok [exampleRun 8 ''Morning Run'' ''1970-01-04T10:00:00Z'']),
                   EvDetail 8 (Ok (exampleRun 8 ''Morning Run'' ''1970-01-04T10:00:00Z'')),
                   EvLaps 8 (Ok [exampleLap 1 1000 600]),
                   EvPut 8 \<lparr>upd_name = Some ''Easy Run'',
                            upd_description = Some ''Avg HR: 152 bpm (80% max)''\<rparr> (Ok ())],
          readsUsed = 3, refreshToken = Some ''refresh''\<rparr>)"
    using example_after_window
    by (simp add: main_def example_credentials example_paceRange example_refresh example_list
          example_retry_defaults example_clock example_rename_morning_run
          maybeFinalizePreviousWeek_def example_parse_start Let_def)
  show ?thesis
    using main_loop_puts_justified [OF run] run
    by (simp add: example_retry_defaults)
qed

text \<open>
  The spec has no rename of an activity whose name is not a default name. On a Monday
  morning inside the first half hour of the active window, with one run of last week
  named \<^verbatim>\<open>Long Run\<close>, which is not a default name, the run issues a rename of that
  activity: the weekly aggregator appends the week total.
\<close>

theorem main_weekly_rename_counterexample:
  "\<not> isDefaultName (Some ''Long Run'') [''Morning Run'', ''Evening Run'']
   \<and> main simplePlatform (listService []) exampleSettings exampleEnv 367800
       [exampleRun 7 ''Long Run'' ''1970-01-03T10:00:00Z'']
     = Some (Inr (),
         \<lparr>world = [exampleRun 7 ''Long Run (Week Total: 5.0 km)'' ''1970-01-03T10:00:00Z''],
          trace = [EvToken ''id'' ''secret'' ''refresh'' (Ok (''token'', None)),
                   EvList 50 345600 (Ok [exampleRun 7 ''Long Run'' ''1970-01-03T10:00:00Z'']),
                   EvListPage 200 1 (- 259200) 345600 (Ok [exampleRun 7 ''Long Run'' ''1970-01-03T10:00:00Z'']),
                   EvPut 7 \<lparr>upd_name = Some ''Long Run (Week Total: 5.0 km)'', upd_description = None\<rparr> (Ok ())],
          readsUsed = 2, refreshToken = Some ''refresh''\<rparr>)"
  using example_within_active_hours
  by (simp add: main_def example_credentials example_paceRange example_refresh example_list
        example_retry_defaults example_clock example_skip_long_run example_weekly example_name_tests Let_def)

section \<open>Properties of the weekly aggregator\<close>

lemma weekTotalRename_unfold:
  "weekTotalRename P settings activities =
     (case weekTarget P activities of
        None \<Rightarrow> None
      | Some target \<Rightarrow>
          if (case act_name target of Some n \<Rightarrow> n \<noteq> [] \<and> str_includes n (weekSuffix settings activities) | None \<Rightarrow> False)
          then None
          else Some (act_id target,
                     \<lparr>upd_name = Some (appendWeekTotalSuffix (case act_name target of Some n \<Rightarrow> n | None \<Rightarrow> ''Run'')
                                         (weekSuffix settings activities)),
                      upd_description = None\<rparr>))"
proof (cases "weekRuns activities = []")
  case True
  then have "weekTarget P activities = None" by (simp add: weekTarget_def)
  moreover have "weekTotalRename P settings activities = None"
    using True by (simp add: weekTotalRename_def weekRuns_def)
  ultimately show ?thesis by simp
next
  case False
  then have "activities \<noteq> []" by (auto simp: weekRuns_def)
  then show ?thesis
    using False
    by (simp add: weekTotalRename_def weekRuns_def weekTarget_def weekSuffix_def Let_def
             split: option.splits)
qed

lemma startsWith_self: "startsWith t t"
  by (simp add: startsWith_def)

lemma str_includes_self: "str_includes t t"
  by (cases t) (simp_all add: startsWith_self)

lemma str_includes_append: "str_includes (p @ t) t"
  by (induction p) (simp_all add: str_includes_self)

lemma str_includes_nonempty: "str_includes n t \<Longrightarrow> t \<noteq> [] \<Longrightarrow> n \<noteq> []"
  by (cases n) simp_all

lemma dropWhile_head: "t \<noteq> [] \<Longrightarrow> \<not> Q (hd t) \<Longrightarrow> dropWhile Q (t @ r) = t @ r"
  by (cases t) simp_all

lemma trim_keeps_suffix:
  assumes ne: "t \<noteq> []" and h: "\<not> isSpace (hd t)" and l: "\<not> isSpace (last t)"
  shows "\<exists>p. trim (c @ t) = p @ t"
proof -
  have "\<exists>p. dropWhile isSpace (c @ t) = p @ t"
  proof (cases "\<forall>x \<in> set c. isSpace x")
    case True
    then have "dropWhile isSpace (c @ t) = dropWhile isSpace t"
      by (simp add: dropWhile_append)
    also have "\<dots> = t" using dropWhile_head [where Q = isSpace and t = t and r = "[]"] ne h by simp
    finally show ?thesis by (metis append_Nil)
  next
    case False
    then have "dropWhile isSpace (c @ t) = dropWhile isSpace c @ t"
      by (auto simp: dropWhile_append)
    then show ?thesis by blast
  qed
  then obtain p where p: "dropWhile isSpace (c @ t) = p @ t" by blast
  have rne: "rev t \<noteq> []" using ne by simp
  have rh: "\<not> isSpace (hd (rev t))" using l ne by (simp add: hd_rev)
  have "dropWhile isSpace (rev (p @ t)) = rev t @ rev p"
    using dropWhile_head [where Q = isSpace and t = "rev t" and r = "rev p"] rne rh by simp
  then have "trim (c @ t) = p @ t"
    by (simp add: trim_def p)
  then show ?thesis by blast
qed

lemma formatWeekTotalSuffix_shape:
  "formatWeekTotalSuffix m u \<noteq> [] \<and> \<not> isSpace (hd (formatWeekTotalSuffix m u))
   \<and> \<not> isSpace (last (formatWeekTotalSuffix m u))"
  by (simp add: formatWeekTotalSuffix_def Let_def isSpace_def)

lemma appendWeekTotalSuffix_includes:
  "str_includes (appendWeekTotalSuffix n (formatWeekTotalSuffix m u)) (formatWeekTotalSuffix m u)"
proof -
  let ?s = "formatWeekTotalSuffix m u"
  obtain p where "trim ((trim (stripWeekTotal n) @ '' '') @ ?s) = p @ ?s"
    using trim_keeps_suffix [of ?s "trim (stripWeekTotal n) @ '' ''"] formatWeekTotalSuffix_shape [of m u]
    by blast
  then show ?thesis
    by (simp add: appendWeekTotalSuffix_def Let_def str_includes_append)
qed

lemma renameIn_map: "renameIn i u acts = map (renamed i u) acts"
  by (simp add: renameIn_def renamed_def)

lemma renamed_fields:
  "act_id (renamed i u a) = act_id a" "act_type (renamed i u a) = act_type a"
  "act_sport_type (renamed i u a) = act_sport_type a" "act_workout_type (renamed i u a) = act_workout_type a"
  "act_distance (renamed i u a) = act_distance a" "act_start_date (renamed i u a) = act_start_date a"
  by (simp_all add: renamed_def split: option.splits)

lemma insort_key_map_inv:
  "(\<And>x. k (f x) = k x) \<Longrightarrow> insort_key k (f x) (map f xs) = map f (insort_key k x xs)"
  by (induction xs) simp_all

lemma sort_key_map_inv:
  "(\<And>x. k (f x) = k x) \<Longrightarrow> sort_key k (map f xs) = map f (sort_key k xs)"
  by (induction xs) (simp_all add: insort_key_map_inv)

lemma filter_map_inv:
  "(\<And>x. Q (f x) = Q x) \<Longrightarrow> filter Q (map f xs) = map f (filter Q xs)"
  by (induction xs) simp_all

lemma find_map_inv:
  "(\<And>x. Q (f x) = Q x) \<Longrightarrow> find Q (map f xs) = map_option f (find Q xs)"
  by (induction xs) simp_all

lemma foldl_map_inv:
  "(\<And>x. g (f x) = g x) \<Longrightarrow> foldl (\<lambda>sum a. sum + g a) z (map f xs) = foldl (\<lambda>sum a. sum + g a) z xs"
  for z :: real
  by (induction xs arbitrary: z) simp_all

lemma weekRuns_renameIn: "weekRuns (renameIn i u acts) = map (renamed i u) (weekRuns acts)"
  unfolding weekRuns_def renameIn_map
  by (rule filter_map_inv) (simp add: renamed_fields)

lemma weekTarget_renameIn: "weekTarget P (renameIn i u acts) = map_option (renamed i u) (weekTarget P acts)"
proof -
  have "filter (\<lambda>a. truthy (act_start_date a)) (map (renamed i u) (weekRuns acts))
          = map (renamed i u) (filter (\<lambda>a. truthy (act_start_date a)) (weekRuns acts))"
    by (rule filter_map_inv) (simp add: renamed_fields)
  moreover have "\<And>xs. sort_key (\<lambda>a. - startTime P a) (map (renamed i u) xs)
          = map (renamed i u) (sort_key (\<lambda>a. - startTime P a) xs)"
    by (rule sort_key_map_inv) (simp add: startTime_def renamed_fields)
  moreover have "\<And>xs. find (\<lambda>a. act_workout_type a \<noteq> Some 1) (map (renamed i u) xs)
          = map_option (renamed i u) (find (\<lambda>a. act_workout_type a \<noteq> Some 1) xs)"
    by (rule find_map_inv) (simp add: renamed_fields)
  ultimately show ?thesis
    by (simp add: weekTarget_def weekRuns_renameIn)
qed

lemma weekSuffix_renameIn: "weekSuffix settings (renameIn i u acts) = weekSuffix settings acts"
proof -
  have "foldl (\<lambda>sum a. sum + (case act_distance a of Some d \<Rightarrow> d | None \<Rightarrow> 0)) 0 (map (renamed i u) (weekRuns acts))
        = foldl (\<lambda>sum a. sum + (case act_distance a of Some d \<Rightarrow> d | None \<Rightarrow> 0)) 0 (weekRuns acts)"
    by (rule foldl_map_inv) (simp add: renamed_fields)
  then show ?thesis
    by (simp add: weekSuffix_def weekRuns_renameIn)
qed

lemma weekSuffix_nonempty: "weekSuffix settings acts \<noteq> []"
  using formatWeekTotalSuffix_shape by (simp add: weekSuffix_def)

lemma weekTotalRename_guard:
  "weekTarget P acts = Some t \<Longrightarrow> act_name t = Some n \<Longrightarrow> str_includes n (weekSuffix settings acts)
   \<Longrightarrow> weekTotalRename P settings acts = None"
  using str_includes_nonempty [of n "weekSuffix settings acts"] weekSuffix_nonempty [of settings acts]
  by (simp add: weekTotalRename_unfold)

lemma weekTotalRename_twice:
  assumes first: "weekTotalRename P settings acts = Some (i, u)"
  shows "weekTotalRename P settings (renameIn i u acts) = None"
proof -
  from first obtain t where t: "weekTarget P acts = Some t" and i: "i = act_id t"
    and u: "upd_name u = Some (appendWeekTotalSuffix (case act_name t of Some n \<Rightarrow> n | None \<Rightarrow> ''Run'')
                                 (weekSuffix settings acts))"
    by (auto simp: weekTotalRename_unfold split: option.splits if_splits)
  let ?new = "appendWeekTotalSuffix (case act_name t of Some n \<Rightarrow> n | None \<Rightarrow> ''Run'') (weekSuffix settings acts)"
  have t': "weekTarget P (renameIn i u acts) = Some (renamed i u t)"
    by (simp add: weekTarget_renameIn t)
  have n': "act_name (renamed i u t) = Some ?new"
    by (simp add: renamed_def i u)
  have "str_includes ?new (weekSuffix settings acts)"
    unfolding weekSuffix_def by (rule appendWeekTotalSuffix_includes)
  then have inc: "str_includes ?new (weekSuffix settings (renameIn i u acts))"
    by (simp only: weekSuffix_renameIn)
  show ?thesis
    by (rule weekTotalRename_guard [OF t' n' inc])
qed

lemma listedActivities_append:
  "listedActivities (xs @ ys) = listedActivities xs @ listedActivities ys"
  by (induction xs rule: listedActivities.induct) simp_all

lemma okBody_Some: "okBody resp = Some b \<Longrightarrow> resp = Ok b"
  by (cases resp) (simp_all add: okBody_def)

lemma pagesLoop_listed:
  assumes run: "pagesLoop svc cr perPage a b page acts st = Some y"
  shows "(\<forall>s. trace (snd (cr s)) = trace s)
         \<longrightarrow> (\<exists>evs. trace (snd y) = trace st @ evs \<and> list_all (\<lambda>e. \<not> isPut e) evs
                  \<and> (\<forall>acts'. fst y = Some acts' \<longrightarrow> acts' = acts @ listedActivities evs))"
proof (rule pagesLoop.raw_induct
         [OF _ run, where P = "\<lambda>svc cr perPage a b page acts st y.
            (\<forall>s. trace (snd (cr s)) = trace s)
            \<longrightarrow> (\<exists>evs. trace (snd y) = trace st @ evs \<and> list_all (\<lambda>e. \<not> isPut e) evs
                     \<and> (\<forall>acts'. fst y = Some acts' \<longrightarrow> acts' = acts @ listedActivities evs))"],
       goal_cases)
  case (1 loop svc cr perPage a b page acts st y)
  show ?case
  proof
    assume cc: "\<forall>s. trace (snd (cr s)) = trace s"
    obtain go st1 where c: "cr st = (go, st1)" by (cases "cr st")
    have t1: "trace st1 = trace st" using cc c by (metis snd_conv)
    obtain resp st2 where g: "stravaGetListPage svc perPage page a b st1 = (resp, st2)"
      by (cases "stravaGetListPage svc perPage page a b st1")
    have t2: "trace st2 = trace st @ [EvListPage perPage page a b resp]"
      using trace_stravaGetListPage [OF g] t1 by simp
    show "\<exists>evs. trace (snd y) = trace st @ evs \<and> list_all (\<lambda>e. \<not> isPut e) evs
                  \<and> (\<forall>acts'. fst y = Some acts' \<longrightarrow> acts' = acts @ listedActivities evs)"
    proof (cases go)
      case False
      then have "y = (None, st1)" using 1(2) c by simp
      then show ?thesis using t1 by simp
    next
      case True
      show ?thesis
      proof (cases "okBody resp")
        case None
        then have "y = (None, st2)" using 1(2) c g True by simp
        then show ?thesis using t2 by simp
      next
        case (Some batch)
        then have resp: "resp = Ok batch" by (rule okBody_Some)
        show ?thesis
        proof (cases "int (length batch) < perPage")
          case lt: True
          then have "y = (Some (acts @ batch), st2)" using 1(2) c g True Some by simp
          then show ?thesis using t2 resp by simp
        next
          case ge: False
          then have "loop svc cr perPage a b (page + 1) (acts @ batch) st2 = Some y"
            using 1(2) c g True Some by simp
          from 1(1) [OF this] cc obtain evs where
            e: "trace (snd y) = trace st2 @ evs" "list_all (\<lambda>e. \<not> isPut e) evs"
               "\<forall>acts'. fst y = Some acts' \<longrightarrow> acts' = (acts @ batch) @ listedActivities evs"
            by blast
          have "trace (snd y) = trace st @ (EvListPage perPage page a b (Ok batch) # evs)"
            using e(1) t2 resp by simp
          moreover have "list_all (\<lambda>e. \<not> isPut e) (EvListPage perPage page a b (Ok batch) # evs)"
            using e(2) by simp
          moreover have "\<forall>acts'. fst y = Some acts'
                \<longrightarrow> acts' = acts @ listedActivities (EvListPage perPage page a b (Ok batch) # evs)"
            using e(3) by simp
          ultimately show ?thesis by blast
        qed
      qed
    qed
  qed
qed

lemma maybeFinalizePreviousWeek_puts:
  assumes run: "maybeFinalizePreviousWeek P svc now settings (consumeRead rp) st = Some st'"
  shows "\<exists>evs. trace st' = trace st @ evs
           \<and> (\<forall>i u r. EvPut i u r \<in> set evs \<longrightarrow> weekTotalRename P settings (listedActivities evs) = Some (i, u))"
proof (cases "real_of_int (dt_hour P now * 60 + dt_minute P now)
                > (case parseTimeHM P (cfg_activeHours_start settings) of
                     Some (h, m) \<Rightarrow> h * 60 + m | None \<Rightarrow> 0) + 30")
  case True
  then have "st' = st" using run by (simp add: maybeFinalizePreviousWeek_def Let_def)
  then show ?thesis by simp
next
  case False
  let ?cur = "startOfWeek P now (if cfg_weekStart settings = ''sunday'' then ''sunday'' else ''monday'')"
  let ?loop = "pagesLoop svc (consumeRead rp) 200 \<lfloor>dt_toSeconds P (dt_minusDays P ?cur 7)\<rfloor>
                 \<lfloor>dt_toSeconds P ?cur\<rfloor> 1 [] st"
  have unfold: "maybeFinalizePreviousWeek P svc now settings (consumeRead rp) st =
      (case ?loop of
         None \<Rightarrow> None
       | Some (None, st1) \<Rightarrow> Some st1
       | Some (Some activities, st1) \<Rightarrow>
           (case weekTotalRename P settings activities of
              None \<Rightarrow> Some st1
            | Some (target, payload) \<Rightarrow> Some (snd (stravaPutActivity svc target payload st1))))"
    using False by (simp add: maybeFinalizePreviousWeek_def Let_def)
  from run unfold obtain r st1 where l: "?loop = Some (r, st1)"
    by (auto split: option.splits)
  from pagesLoop_listed [OF l] obtain pevs where
    p: "trace st1 = trace st @ pevs" "list_all (\<lambda>e. \<not> isPut e) pevs"
       "\<forall>acts'. r = Some acts' \<longrightarrow> acts' = listedActivities pevs"
    by (auto simp: trace_consumeRead)
  have noput: "\<And>i u r. EvPut i u r \<notin> set pevs"
    using p(2) by (auto simp: list_all_iff)
  show ?thesis
  proof (cases "\<exists>acts target payload. r = Some acts \<and> weekTotalRename P settings acts = Some (target, payload)")
    case True
    then obtain acts target payload where
      a: "r = Some acts" "weekTotalRename P settings acts = Some (target, payload)" by blast
    let ?ev = "EvPut target payload (fst (stravaPutActivity svc target payload st1))"
    have acts: "acts = listedActivities pevs" using p(3) a(1) by simp
    have "st' = snd (stravaPutActivity svc target payload st1)"
      using run unfold l a by simp
    then have tr: "trace st' = trace st @ (pevs @ [?ev])"
      using p(1) by (simp add: trace_stravaPutActivity)
    have "\<forall>i u r. EvPut i u r \<in> set (pevs @ [?ev])
            \<longrightarrow> weekTotalRename P settings (listedActivities (pevs @ [?ev])) = Some (i, u)"
      using noput a(2) acts by (auto simp: listedActivities_append)
    then show ?thesis using tr by blast
  next
    case False
    then have "st' = st1"
      using run unfold l by (auto split: option.splits)
    then show ?thesis using p(1) noput by blast
  qed
qed

text \<open>
  Claim C8 (weekly suffix idempotence). Every rename the weekly aggregator issues is the
  one \<open>weekTotalRename\<close> decides on the activities it has listed. When the name of
  the selected target already contains the computed suffix, that decision is to issue
  no rename. Hence, when a rename it has decided on has taken effect in the listed
  activities and nothing else has changed, a second application decides on no rename.
\<close>

theorem weekly_suffix_idempotent:
  "(maybeFinalizePreviousWeek P svc now settings (consumeRead rp) st = Some st' \<longrightarrow>
      (\<exists>evs. trace st' = trace st @ evs
         \<and> (\<forall>i u r. EvPut i u r \<in> set evs
               \<longrightarrow> weekTotalRename P settings (listedActivities evs) = Some (i, u))))
   \<and> (weekTarget P acts = Some t \<longrightarrow> act_name t = Some n \<longrightarrow> str_includes n (weekSuffix settings acts)
        \<longrightarrow> weekTotalRename P settings acts = None)
   \<and> (weekTotalRename P settings acts = Some (i, u)
        \<longrightarrow> weekTotalRename P settings (renameIn i u acts) = None)"
  using maybeFinalizePreviousWeek_puts [of P svc now settings rp st st']
    weekTotalRename_guard [of P acts t n settings] weekTotalRename_twice [of P settings acts i u]
  by blast

lemma example_week_target:
  "d \<noteq> [] \<Longrightarrow> weekTarget simplePlatform [exampleRun 7 n d] = Some (exampleRun 7 n d)"
  by (simp add: weekTarget_def weekRuns_def exampleRun_def looksLikeRun_Run truthy_def)

lemma example_week_suffix: "weekSuffix exampleSettings [exampleRun 7 n d] = ''(Week Total: 5.0 km)''"
  by (simp add: weekSuffix_def weekRuns_def exampleRun_def exampleSettings_def looksLikeRun_Run
        example_suffix)

theorem weekly_suffix_idempotent_witness:
  "maybeFinalizePreviousWeek simplePlatform (listService []) 367800 exampleSettings
     (consumeRead \<lparr>lapRetryIntervalSeconds = 60, lapRetryMaxMinutes = 30, maxReadsPerRun = 90\<rparr>)
     \<lparr>world = [exampleRun 7 ''Long Run'' ''1970-01-03T10:00:00Z''], trace = [], readsUsed = 1,
      refreshToken = Some ''refresh''\<rparr>
   = Some \<lparr>world = [exampleRun 7 ''Long Run (Week Total: 5.0 km)'' ''1970-01-03T10:00:00Z''],
           trace = [EvListPage 200 1 (- 259200) 345600 (Ok [exampleRun 7 ''Long Run'' ''1970-01-03T10:00:00Z'']),
                    EvPut 7 \<lparr>upd_name = Some ''Long Run (Week Total: 5.0 km)'', upd_description = None\<rparr> (Ok ())],
           readsUsed = 2, refreshToken = Some ''refresh''\<rparr>
   \<and> weekTotalRename simplePlatform exampleSettings [exampleRun 7 ''Long Run'' ''1970-01-03T10:00:00Z'']
     = Some (7, \<lparr>upd_name = Some ''Long Run (Week Total: 5.0 km)'', upd_description = None\<rparr>)
   \<and> weekTarget simplePlatform [exampleRun 7 ''Long Run (Week Total: 5.0 km)'' ''1970-01-03T10:00:00Z'']
     = Some (exampleRun 7 ''Long Run (Week Total: 5.0 km)'' ''1970-01-03T10:00:00Z'')
   \<and> str_includes ''Long Run (Week Total: 5.0 km)''
       (weekSuffix exampleSettings [exampleRun 7 ''Long Run (Week Total: 5.0 km)'' ''1970-01-03T10:00:00Z''])
   \<and> weekTotalRename simplePlatform exampleSettings
       [exampleRun 7 ''Long Run (Week Total: 5.0 km)'' ''1970-01-03T10:00:00Z''] = None"
proof -
  have inc: "str_includes ''Long Run (Week Total: 5.0 km)'' ''(Week Total: 5.0 km)''"
    by (simp add: startsWith_def)
  have again: "renameIn 7 \<lparr>upd_name = Some ''Long Run (Week Total: 5.0 km)'', upd_description = None\<rparr>
                 [exampleRun 7 ''Long Run'' ''1970-01-03T10:00:00Z'']
               = [exampleRun 7 ''Long Run (Week Total: 5.0 km)'' ''1970-01-03T10:00:00Z'']"
    by (simp add: renameIn_def exampleRun_def)
  show ?thesis
    using weekly_suffix_idempotent [of simplePlatform "listService []" 367800 exampleSettings
          "\<lparr>lapRetryIntervalSeconds = 60, lapRetryMaxMinutes = 30, maxReadsPerRun = 90\<rparr>"
          "\<lparr>world = [exampleRun 7 ''Long Run'' ''1970-01-03T10:00:00Z''], trace = [], readsUsed = 1,
            refreshToken = Some ''refresh''\<rparr>"
          "\<lparr>world = [exampleRun 7 ''Long Run (Week Total: 5.0 km)'' ''1970-01-03T10:00:00Z''],
            trace = [EvListPage 200 1 (- 259200) 345600 (Ok [exampleRun 7 ''Long Run'' ''1970-01-03T10:00:00Z'']),
                     EvPut 7 \<lparr>upd_name = Some ''Long Run (Week Total: 5.0 km)'', upd_description = None\<rparr> (Ok ())],
            readsUsed = 2, refreshToken = Some ''refresh''\<rparr>"
          "[exampleRun 7 ''Long Run'' ''1970-01-03T10:00:00Z'']"
          "exampleRun 7 ''Long Run'' ''1970-01-03T10:00:00Z''" "''Long Run''" 7
          "\<lparr>upd_name = Some ''Long Run (Week Total: 5.0 km)'', upd_description = None\<rparr>"]
      example_weekTotalRename example_weekly [where tr = "[]" and laps = "[]"] inc again
    by (simp add: example_week_target example_week_suffix)
qed

end
